theory Spec2Isabelle
  imports Complex_Main "HOL-Library.Word"
begin

section \<open>The scripting host's primitives used by pkcs8.js\<close>

text \<open>
  pkcs8.js runs on a smart card scripting host whose classes ByteString, ByteBuffer, ASN1 and
  Key are not part of the repository. They are modelled here as far as the script uses
  them. A failing host call (a thrown error) is a value \<open>Inl e\<close>; so is the failing
  \<open>assert\<close> of the script.
\<close>

type_synonym byte = "8 word"
type_synonym ByteString = "byte list"

datatype error =
    AssertionFailed
  | INVALID_INDEX
  | INVALID_DATA
  | UNDEFINED_COMPONENT

definition thenE :: "error + 'a \<Rightarrow> ('a \<Rightarrow> error + 'b) \<Rightarrow> error + 'b" where
  "thenE m f = (case m of Inl e \<Rightarrow> Inl e | Inr x \<Rightarrow> f x)"

subsection \<open>ByteString\<close>

text \<open>
  Modelled from the spec: the host's ByteString class, which section 1 of the
  specification takes as given (a raw byte sequence with slicing, concatenation,
  construction from hexadecimal digits and equality). A ByteString is the list of its
  bytes.

  \<open>bs.byteAt(i)\<close>: the unsigned value of the byte at index i; an index error out of range.
\<close>

definition byteAt :: "ByteString \<Rightarrow> nat \<Rightarrow> error + nat" where
  "byteAt bs i = (if i < length bs then Inr (unat (bs ! i)) else Inl INVALID_INDEX)"

text \<open>
  A JavaScript Number handed to a host method that expects an integer is truncated
  towards zero. The only non-integral Numbers the script can produce are halves
  (\<open>length / 2\<close>), which are exact, so Numbers are rationals here.
\<close>

definition toInteger :: "rat \<Rightarrow> int" where
  "toInteger r = (if 0 \<le> r then \<lfloor>r\<rfloor> else \<lceil>r\<rceil>)"

text \<open>\<open>bs.bytes(offset, count)\<close>: count bytes from offset; an index error out of range.\<close>

definition bytes :: "ByteString \<Rightarrow> rat \<Rightarrow> rat \<Rightarrow> error + ByteString" where
  "bytes bs offset count =
     (let off = toInteger offset; cnt = toInteger count
      in if off < 0 \<or> cnt < 0 \<or> int (length bs) < off + cnt then Inl INVALID_INDEX
         else Inr (take (nat cnt) (drop (nat off) bs)))"

text \<open>\<open>bs.right(count)\<close>: the last count bytes; an index error if there are fewer.\<close>

definition right :: "ByteString \<Rightarrow> nat \<Rightarrow> error + ByteString" where
  "right bs count = (if count \<le> length bs then Inr (drop (length bs - count) bs)
                     else Inl INVALID_INDEX)"

text \<open>\<open>a.concat(b)\<close>\<close>

definition concat_bs :: "ByteString \<Rightarrow> ByteString \<Rightarrow> ByteString" where
  "concat_bs a b = a @ b"

text \<open>
  \<open>new ByteString(s, HEX)\<close> reads a string of hexadecimal digit pairs. When the script
  passes a ByteString where the string is expected, the host converts it with
  \<open>toString\<close>, which prints the bytes as upper case hexadecimal digit pairs.
\<close>

definition hexDigit :: "nat \<Rightarrow> char" where
  "hexDigit n = ''0123456789ABCDEF'' ! n"

fun hexValue :: "char \<Rightarrow> nat option" where
  "hexValue c =
     (let n = of_char c :: nat
      in if 48 \<le> n \<and> n \<le> 57 then Some (n - 48)
         else if 65 \<le> n \<and> n \<le> 70 then Some (n - 55)
         else if 97 \<le> n \<and> n \<le> 102 then Some (n - 87)
         else None)"

fun toString :: "ByteString \<Rightarrow> string" where
  "toString [] = []"
| "toString (b # bs) = hexDigit (unat b div 16) # hexDigit (unat b mod 16) # toString bs"

fun ByteString_HEX :: "string \<Rightarrow> error + ByteString" where
  "ByteString_HEX [] = Inr []"
| "ByteString_HEX [c] = Inl INVALID_DATA"
| "ByteString_HEX (c # d # s) =
     (case (hexValue c, hexValue d) of
        (Some h, Some l) \<Rightarrow> thenE (ByteString_HEX s) (\<lambda>bs. Inr (of_nat (16 * h + l) # bs))
      | _ \<Rightarrow> Inl INVALID_DATA)"

subsection \<open>ByteBuffer\<close>

text \<open>
  Modelled from the spec: the host's ByteBuffer class, a byte sequence that grows by
  \<open>append\<close> and is read off with \<open>toByteString\<close>.
\<close>

type_synonym ByteBuffer = "byte list"

definition new_ByteBuffer :: ByteBuffer where
  "new_ByteBuffer = []"

definition append :: "ByteBuffer \<Rightarrow> ByteString \<Rightarrow> ByteBuffer" where
  "append bb bs = bb @ bs"

definition toByteString :: "ByteBuffer \<Rightarrow> ByteString" where
  "toByteString bb = bb"

section \<open>Point codec\<close>

text \<open>
  \<open>PKCS8.encodeUncompressedECPoint(x, y)\<close>: the marker 04, then x, then y, each
  appended to a fresh buffer (the script keeps it in the global \<open>bb\<close>, which every call
  replaces). Both coordinates are ByteStrings that pass through \<open>new ByteString(., HEX)\<close>.
\<close>

definition encodeUncompressedECPoint :: "ByteString \<Rightarrow> ByteString \<Rightarrow> error + ByteString" where
  "encodeUncompressedECPoint x y =
     thenE (ByteString_HEX ''04'') (\<lambda>marker.
     thenE (ByteString_HEX (toString x)) (\<lambda>xs.
     thenE (ByteString_HEX (toString y)) (\<lambda>ys.
       Inr (toByteString (append (append (append new_ByteBuffer marker) xs) ys)))))"

text \<open>
  \<open>PKCS8.decodeUncompressedECPoint(uncompressedPoint)\<close>. \<open>length / 2\<close> is JavaScript's
  division, which does not round.
\<close>

definition decodeUncompressedECPoint :: "ByteString \<Rightarrow> error + (ByteString \<times> ByteString)" where
  "decodeUncompressedECPoint uncompressedPoint =
     (let len = int (length uncompressedPoint) - 1;
          sizeOfCoordinate = (of_int len :: rat) / 2
      in thenE (bytes uncompressedPoint 1 sizeOfCoordinate) (\<lambda>xValue.
         thenE (bytes uncompressedPoint (1 + sizeOfCoordinate) sizeOfCoordinate) (\<lambda>yValue.
           Inr (xValue, yValue))))"

section \<open>Leading zeros\<close>

text \<open>The loop of \<open>PKCS8.stripLeadingZeros\<close>, started at \<open>i = 0\<close>; it returns the final i.\<close>

function stripLeadingZeros_loop :: "ByteString \<Rightarrow> nat \<Rightarrow> nat" where
  "stripLeadingZeros_loop v i =
     (if i < length v \<and> byteAt v i = Inr 0 then stripLeadingZeros_loop v (i + 1) else i)"
  by pat_completeness auto
termination
  by (relation "measure (\<lambda>(v, i). length v - i)") auto

declare stripLeadingZeros_loop.simps [simp del]

definition stripLeadingZeros :: "ByteString \<Rightarrow> error + ByteString" where
  "stripLeadingZeros v = (let i = stripLeadingZeros_loop v 0 in right v (length v - i))"

section \<open>ASN.1 objects\<close>

text \<open>
  Modelled from the spec: the host's ASN1 class, which sections 1 and 6 of the
  specification take as given: a builder that accepts a tag with raw bytes or a tag with
  an ordered list of children and produces the canonical DER encoding, and a parser that
  accepts raw bytes and exposes indexable children and raw leaf values. The model covers
  what the script relies on: tags of one byte, definite lengths in the short form below 128
  and in the long form from there on. A node made by \<open>new ASN1(tag, value)\<close> is
  \<open>Primitive\<close>; a node made by \<open>new ASN1(tag)\<close> and filled with \<open>add\<close> is
  \<open>Constructed\<close>, its children in the order of the \<open>add\<close> calls.
\<close>

datatype ASN1 = Primitive byte ByteString | Constructed byte "ASN1 list"

definition INTEGER :: byte where "INTEGER = 0x02"
definition OCTET_STRING :: byte where "OCTET_STRING = 0x04"
definition OBJECT_IDENTIFIER :: byte where "OBJECT_IDENTIFIER = 0x06"
definition SEQUENCE :: byte where "SEQUENCE = 0x30"

text \<open>The length octets of DER: one byte below 128, else a count byte and the big-endian length.\<close>

fun bigEndian :: "nat \<Rightarrow> ByteString" where
  "bigEndian n = (if n < 256 then [of_nat n] else bigEndian (n div 256) @ [of_nat (n mod 256)])"

declare bigEndian.simps [simp del]

definition encodeLength :: "nat \<Rightarrow> ByteString" where
  "encodeLength n =
     (if n < 128 then [of_nat n]
      else (let bs = bigEndian n in of_nat (128 + length bs) # bs))"

definition tlv :: "byte \<Rightarrow> ByteString \<Rightarrow> ByteString" where
  "tlv tag v = tag # encodeLength (length v) @ v"

text \<open>\<open>node.getBytes()\<close>: the DER encoding of the node.\<close>

fun getBytes :: "ASN1 \<Rightarrow> ByteString" where
  "getBytes (Primitive tag v) = tlv tag v"
| "getBytes (Constructed tag cs) = tlv tag (concat (map getBytes cs))"

text \<open>\<open>node.value\<close>: the content octets of the node.\<close>

fun "value" :: "ASN1 \<Rightarrow> ByteString" where
  "value (Primitive tag v) = v"
| "value (Constructed tag cs) = concat (map getBytes cs)"

text \<open>\<open>node.get(i)\<close>: the i-th child; an index error if there is none.\<close>

fun get :: "ASN1 \<Rightarrow> nat \<Rightarrow> error + ASN1" where
  "get (Primitive tag v) i = Inl INVALID_INDEX"
| "get (Constructed tag cs) i = (if i < length cs then Inr (cs ! i) else Inl INVALID_INDEX)"

text \<open>
  \<open>new ASN1(bytes)\<close> parses one object that fills the whole of its input. A tag whose
  bit 6 is set holds a sequence of objects, any other tag holds raw bytes; so an
  OCTET STRING that was built around a child is read back as a leaf. A tag byte that
  announces further tag bytes, a length of indefinite form and a length that runs past
  the input are refused.
\<close>

definition bigEndianValue :: "ByteString \<Rightarrow> nat" where
  "bigEndianValue bs = foldl (\<lambda>a b. 256 * a + unat b) 0 bs"

definition decodeLength :: "ByteString \<Rightarrow> (nat \<times> ByteString) option" where
  "decodeLength bs =
     (case bs of
        [] \<Rightarrow> None
      | b # rest \<Rightarrow>
          if unat b < 128 then Some (unat b, rest)
          else (let k = unat b - 128
                in if k = 0 \<or> length rest < k then None
                   else Some (bigEndianValue (take k rest), drop k rest)))"

definition readTLV :: "ByteString \<Rightarrow> (byte \<times> ByteString \<times> ByteString) option" where
  "readTLV bs =
     (case bs of
        [] \<Rightarrow> None
      | tag # r \<Rightarrow>
          if take_bit 5 (unat tag) = 31 then None
          else (case decodeLength r of
                  None \<Rightarrow> None
                | Some (n, r') \<Rightarrow>
                    if length r' < n then None else Some (tag, take n r', drop n r')))"

definition isConstructed :: "byte \<Rightarrow> bool" where
  "isConstructed tag = bit tag 5"

function parseList :: "ByteString \<Rightarrow> ASN1 list option" where
  "parseList bs =
     (if bs = [] then Some []
      else (case readTLV bs of
              None \<Rightarrow> None
            | Some (tag, v, rest) \<Rightarrow>
                (case (if isConstructed tag then map_option (Constructed tag) (parseList v)
                       else Some (Primitive tag v)) of
                   None \<Rightarrow> None
                 | Some node \<Rightarrow> map_option ((#) node) (parseList rest))))"
  by pat_completeness auto
termination
  by (relation "measure length")
    (auto simp: readTLV_def decodeLength_def Let_def split: list.splits option.splits if_splits)

declare parseList.simps [simp del]

definition new_ASN1 :: "ByteString \<Rightarrow> error + ASN1" where
  "new_ASN1 bs = (case parseList bs of Some [node] \<Rightarrow> Inr node | _ \<Rightarrow> Inl INVALID_DATA)"

text \<open>
  \<open>new ByteString(s, OID)\<close> for a dotted identifier s, given here by its arcs: the first
  two arcs share a byte, every further arc is written in base 128, high groups first
  and marked with bit 8.
\<close>

fun base128 :: "nat \<Rightarrow> ByteString" where
  "base128 n = (if n < 128 then [] else base128 (n div 128) @ [of_nat (128 + (n div 128) mod 128)])"

declare base128.simps [simp del]

definition arcBytes :: "nat \<Rightarrow> ByteString" where
  "arcBytes n = base128 n @ [of_nat (n mod 128)]"

fun ByteString_OID :: "nat list \<Rightarrow> ByteString" where
  "ByteString_OID (a # b # arcs) = of_nat (40 * a + b) # concat (map arcBytes arcs)"
| "ByteString_OID arcs = []"

section \<open>Keys\<close>

text \<open>
  Modelled from the spec: the host's Key class, which section 6 of the specification takes
  as given (an object that stores and retrieves components by name). A fresh key has no
  type and no component; reading a component that was never set is an error.
\<close>

datatype keyType = PRIVATE | PUBLIC | SECRET

datatype component =
  ECC_P | ECC_A | ECC_B | ECC_GX | ECC_GY | ECC_N | ECC_H | ECC_D | ECC_CURVE_OID

record Key =
  keyType :: "keyType option"
  components :: "component \<rightharpoonup> ByteString"

definition new_Key :: Key where
  "new_Key = \<lparr>keyType = None, components = Map.empty\<rparr>"

definition getType :: "Key \<Rightarrow> keyType option" where
  "getType k = keyType k"

definition setType :: "Key \<Rightarrow> keyType \<Rightarrow> Key" where
  "setType k t = k\<lparr>keyType := Some t\<rparr>"

definition getComponent :: "Key \<Rightarrow> component \<Rightarrow> error + ByteString" where
  "getComponent k c = (case components k c of None \<Rightarrow> Inl UNDEFINED_COMPONENT | Some v \<Rightarrow> Inr v)"

definition setComponent :: "Key \<Rightarrow> component \<Rightarrow> ByteString \<Rightarrow> Key" where
  "setComponent k c v = k\<lparr>components := (components k)(c \<mapsto> v)\<rparr>"

section \<open>PKCS8 key codec\<close>

text \<open>
  \<open>PKCS8.encodeKeyUsingPKCS8Format(privateKey)\<close>, statement by statement. The host
  calls that can throw are chained in the order the script makes them.
\<close>

definition encodeKeyUsingPKCS8Format :: "Key \<Rightarrow> error + ByteString" where
  "encodeKeyUsingPKCS8Format privateKey =
     (if getType privateKey \<noteq> Some PRIVATE then Inl AssertionFailed
      else
        thenE (ByteString_HEX ''00'') (\<lambda>zero.
        let version = Primitive INTEGER zero;
            algId = Primitive OBJECT_IDENTIFIER (ByteString_OID [1, 2, 840, 10045, 2, 1])
        in
        thenE (getComponent privateKey ECC_H) (\<lambda>h.
        thenE (stripLeadingZeros h) (\<lambda>h'.
        let cofactor = Primitive INTEGER h';
            fieldType = Primitive OBJECT_IDENTIFIER (ByteString_OID [1, 2, 840, 10045, 1, 1])
        in
        thenE (getComponent privateKey ECC_P) (\<lambda>primeOrder.
        thenE (byteAt primeOrder 0) (\<lambda>p0.
        thenE (if p0 \<ge> 0x80
               then thenE (ByteString_HEX ''00'') (\<lambda>pad.
                    thenE (getComponent privateKey ECC_P) (\<lambda>p.
                      Inr (Primitive INTEGER (concat_bs pad p))))
               else thenE (getComponent privateKey ECC_P) (\<lambda>p.
                      Inr (Primitive INTEGER p))) (\<lambda>prime.
        let field = Constructed SEQUENCE [fieldType, prime] in
        thenE (getComponent privateKey ECC_A) (\<lambda>a.
        thenE (getComponent privateKey ECC_B) (\<lambda>b.
        let coeff = Constructed SEQUENCE [Primitive OCTET_STRING a, Primitive OCTET_STRING b] in
        thenE (getComponent privateKey ECC_GX) (\<lambda>gx.
        thenE (getComponent privateKey ECC_GY) (\<lambda>gy.
        thenE (encodeUncompressedECPoint gx gy) (\<lambda>g.
        let basePoint = Primitive OCTET_STRING g in
        thenE (getComponent privateKey ECC_N) (\<lambda>groupOrder.
        thenE (byteAt groupOrder 0) (\<lambda>n0.
        thenE (if n0 \<ge> 0x80
               then thenE (ByteString_HEX ''00'') (\<lambda>pad.
                    thenE (getComponent privateKey ECC_N) (\<lambda>n.
                      Inr (Primitive INTEGER (concat_bs pad n))))
               else thenE (getComponent privateKey ECC_N) (\<lambda>n.
                      Inr (Primitive INTEGER n))) (\<lambda>order.
        let domainInfo = Constructed SEQUENCE [cofactor, field, coeff, basePoint, order];
            privateKeyAlgorithm = Constructed SEQUENCE [algId, domainInfo]
        in
        thenE (getComponent privateKey ECC_D) (\<lambda>pk.
        thenE (ByteString_HEX ''01'') (\<lambda>one.
        let key = Constructed SEQUENCE [Primitive INTEGER one, Primitive OCTET_STRING pk];
            encodedPrivateKey = Constructed OCTET_STRING [key];
            privateKeyInfo = Constructed SEQUENCE [version, privateKeyAlgorithm, encodedPrivateKey]
        in Inr (getBytes privateKeyInfo))))))))))))))))))"

text \<open>\<open>PKCS8.decodeKeyFromPKCS8Format(encodedKey)\<close>, statement by statement.\<close>

definition decodeKeyFromPKCS8Format :: "ByteString \<Rightarrow> error + Key" where
  "decodeKeyFromPKCS8Format encodedKey =
     (let key0 = setType new_Key PRIVATE in
      thenE (new_ASN1 encodedKey) (\<lambda>p8.
      thenE (get p8 2) (\<lambda>privKeyBlock.
      thenE (new_ASN1 (value privKeyBlock)) (\<lambda>encodedKey'.
      thenE (get encodedKey' 1) (\<lambda>d.
      let key1 = setComponent key0 ECC_D (value d) in
      thenE (get p8 1) (\<lambda>algorithm.
      thenE (get algorithm 1) (\<lambda>domainParameter.
      thenE (get domainParameter 0) (\<lambda>cofactor.
      let key2 = setComponent key1 ECC_H (value cofactor) in
      thenE (get domainParameter 1) (\<lambda>field.
      thenE (get field 1) (\<lambda>order.
      let key3 = setComponent key2 ECC_P (value order) in
      thenE (get domainParameter 2) (\<lambda>coeff.
      thenE (get coeff 0) (\<lambda>coeff_A.
      let key4 = setComponent key3 ECC_A (value coeff_A) in
      thenE (get domainParameter 2) (\<lambda>coeff'.
      thenE (get coeff' 1) (\<lambda>coeff_B.
      let key5 = setComponent key4 ECC_B (value coeff_B) in
      thenE (get domainParameter 3) (\<lambda>point.
      let generatorPoint = value point in
      thenE (decodeUncompressedECPoint generatorPoint) (\<lambda>coordinates.
      let key6 = setComponent key5 ECC_GX (fst coordinates);
          key7 = setComponent key6 ECC_GY (snd coordinates)
      in
      thenE (get domainParameter 4) (\<lambda>groupOrder.
      let key8 = setComponent key7 ECC_N (value groupOrder) in
      Inr key8)))))))))))))))))"

section \<open>Notions used to state the properties\<close>

text \<open>
  The tree that section 4.2 of the specification prescribes for a private key, as a
  function of the seven values it carries.
\<close>

definition PrivateKeyInfo ::
  "ByteString \<Rightarrow> ByteString \<Rightarrow> ByteString \<Rightarrow> ByteString \<Rightarrow> ByteString \<Rightarrow> ByteString \<Rightarrow>
   ByteString \<Rightarrow> ASN1" where
  "PrivateKeyInfo cofactor prime a b basePoint order d =
     Constructed SEQUENCE
       [Primitive INTEGER [0x00],
        Constructed SEQUENCE
          [Primitive OBJECT_IDENTIFIER [0x2A, 0x86, 0x48, 0xCE, 0x3D, 0x02, 0x01],
           Constructed SEQUENCE
             [Primitive INTEGER cofactor,
              Constructed SEQUENCE
                [Primitive OBJECT_IDENTIFIER [0x2A, 0x86, 0x48, 0xCE, 0x3D, 0x01, 0x01],
                 Primitive INTEGER prime],
              Constructed SEQUENCE [Primitive OCTET_STRING a, Primitive OCTET_STRING b],
              Primitive OCTET_STRING basePoint,
              Primitive INTEGER order]],
        Constructed OCTET_STRING
          [Constructed SEQUENCE [Primitive INTEGER [0x01], Primitive OCTET_STRING d]]]"

text \<open>The sign padding of the script: a zero byte in front when the first byte is 80 or more.\<close>

definition signPadded :: "ByteString \<Rightarrow> ByteString" where
  "signPadded v = (if 0x80 \<le> unat (hd v) then 0x00 # v else v)"

text \<open>
  A key holds a component when it is set; the length of a ByteString of the host is a
  32-bit signed integer.
\<close>

definition holds :: "Key \<Rightarrow> component \<Rightarrow> ByteString \<Rightarrow> bool" where
  "holds k c v = (components k c = Some v \<and> length v < 2 ^ 31)"

text \<open>The key that the decoder assembles, in the order of its \<open>setComponent\<close> calls.\<close>

definition decodedKey ::
  "ByteString \<Rightarrow> ByteString \<Rightarrow> ByteString \<Rightarrow> ByteString \<Rightarrow> ByteString \<Rightarrow> ByteString \<Rightarrow>
   ByteString \<Rightarrow> ByteString \<Rightarrow> Key" where
  "decodedKey h p a b gx gy n d =
     setComponent (setComponent (setComponent (setComponent (setComponent (setComponent
       (setComponent (setComponent (setType new_Key PRIVATE) ECC_D d) ECC_H h) ECC_P p)
         ECC_A a) ECC_B b) ECC_GX gx) ECC_GY gy) ECC_N n"

text \<open>
  What the parser reads back from the encoding of a tree: the same tree, except that a
  node built around children under a tag without bit 6 comes back as a leaf.
\<close>

fun parsedForm :: "ASN1 \<Rightarrow> ASN1" where
  "parsedForm (Primitive tag v) = Primitive tag v"
| "parsedForm (Constructed tag cs) =
     (if isConstructed tag then Constructed tag (map parsedForm cs)
      else Primitive tag (concat (map getBytes cs)))"

text \<open>An upper bound of the encoded size of a tree: ten bytes of header for each node.\<close>

fun weight :: "ASN1 \<Rightarrow> nat" where
  "weight (Primitive tag v) = length v + 10"
| "weight (Constructed tag cs) = sum_list (map weight cs) + 10"

definition shortTag :: "byte \<Rightarrow> bool" where
  "shortTag tag = (take_bit 5 (unat tag) \<noteq> 31)"

text \<open>Trees as the script builds them: one-byte tags, and leaf values only under leaf tags.\<close>

fun scriptBuilt :: "ASN1 \<Rightarrow> bool" where
  "scriptBuilt (Primitive tag v) = (shortTag tag \<and> \<not> isConstructed tag)"
| "scriptBuilt (Constructed tag cs) = (shortTag tag \<and> list_all scriptBuilt cs)"

text \<open>The node reached from a node by a path of child indices.\<close>

fun nodeAt :: "ASN1 \<Rightarrow> nat list \<Rightarrow> error + ASN1" where
  "nodeAt node [] = Inr node"
| "nodeAt node (i # path) = thenE (get node i) (\<lambda>child. nodeAt child path)"

text \<open>The node at a path in the parsed output of the encoder.\<close>

definition encodedNode :: "Key \<Rightarrow> nat list \<Rightarrow> error + ASN1" where
  "encodedNode k path =
     thenE (encodeKeyUsingPKCS8Format k) (\<lambda>out.
     thenE (new_ASN1 out) (\<lambda>tree. nodeAt tree path))"

text \<open>A component of the key obtained by encoding a key and decoding the result.\<close>

definition roundTripComponent :: "Key \<Rightarrow> component \<Rightarrow> error + ByteString" where
  "roundTripComponent k c =
     thenE (encodeKeyUsingPKCS8Format k) (\<lambda>out.
     thenE (decodeKeyFromPKCS8Format out) (\<lambda>k'. getComponent k' c))"

text \<open>Encoding, decoding and encoding again.\<close>

definition reencode :: "Key \<Rightarrow> error + ByteString" where
  "reencode k =
     thenE (encodeKeyUsingPKCS8Format k) (\<lambda>out.
     thenE (decodeKeyFromPKCS8Format out) encodeKeyUsingPKCS8Format)"

text \<open>
  A private key with the eight components set, as the self-test of the script obtains one
  from the key generator.
\<close>

definition privateKeyOf ::
  "ByteString \<Rightarrow> ByteString \<Rightarrow> ByteString \<Rightarrow> ByteString \<Rightarrow> ByteString \<Rightarrow> ByteString \<Rightarrow>
   ByteString \<Rightarrow> ByteString \<Rightarrow> Key" where
  "privateKeyOf h p a b gx gy n d =
     setComponent (setComponent (setComponent (setComponent (setComponent (setComponent
       (setComponent (setComponent (setType new_Key PRIVATE) ECC_H h) ECC_P p) ECC_A a)
         ECC_B b) ECC_GX gx) ECC_GY gy) ECC_N n) ECC_D d"

text \<open>The child positions of the parsed input that the decoder reads.\<close>

definition navigatedPaths :: "nat list list" where
  "navigatedPaths = [[2], [1, 1, 0], [1, 1, 1, 1], [1, 1, 2, 0], [1, 1, 2, 1], [1, 1, 3], [1, 1, 4]]"

text \<open>
  The inputs that offer the decoder less than it reads: the input is not one ASN.1 object;
  or its tree has no node at one of the positions the decoder reads; or the value of the
  third child of the top node, the private-key block, is not one ASN.1 object with a
  second child; or the point decoder fails on the value of the base point.
\<close>

definition unreadable :: "ByteString \<Rightarrow> bool" where
  "unreadable bs =
     (case new_ASN1 bs of
        Inl e \<Rightarrow> True
      | Inr tree \<Rightarrow>
          list_ex (\<lambda>path. isl (nodeAt tree path)) navigatedPaths \<or>
          isl (thenE (nodeAt tree [2]) (\<lambda>block.
               thenE (new_ASN1 (value block)) (\<lambda>inner. nodeAt inner [1]))) \<or>
          isl (thenE (nodeAt tree [1, 1, 3]) (\<lambda>point.
               decodeUncompressedECPoint (value point))))"

text \<open>
  A tree of the right shape under wrong tags: SET instead of SEQUENCE, OCTET STRING and
  INTEGER swapped, and a fourth child below the top node. The third child holds the
  encoding of a SET of an OCTET STRING 01 and an INTEGER 09.
\<close>

definition mistagged :: ASN1 where
  "mistagged =
     Constructed 0x31
       [Primitive 0x04 [0x00],
        Constructed 0x31
          [Primitive 0x04 [0x01, 0x02, 0x03],
           Constructed 0x31
             [Primitive 0x04 [0x01],
              Constructed 0x31 [Primitive 0x04 [], Primitive 0x04 [0x7F]],
              Constructed 0x31 [Primitive 0x02 [0x03], Primitive 0x02 [0x04]],
              Primitive 0x02 [0x04, 0x05, 0x06],
              Primitive 0x04 [0x07]]],
        Primitive 0x02 [0x31, 0x06, 0x04, 0x01, 0x01, 0x02, 0x01, 0x09],
        Primitive 0x04 [0x0B]]"

section \<open>Properties of the host primitives\<close>

lemma thenE_Inr: "thenE (Inr x) f = f x"
  by (simp add: thenE_def)

lemma thenE_Inl: "thenE (Inl e) f = Inl e"
  by (simp add: thenE_def)

lemma hexValue_hexDigit: "n < 16 \<Longrightarrow> hexValue (hexDigit n) = Some n"
proof -
  assume "n < 16"
  then consider "n = 0" | "n = 1" | "n = 2" | "n = 3" | "n = 4" | "n = 5" | "n = 6" | "n = 7"
    | "n = 8" | "n = 9" | "n = 10" | "n = 11" | "n = 12" | "n = 13" | "n = 14" | "n = 15"
    by atomize_elim arith
  then show ?thesis
    by cases (simp_all add: hexDigit_def)
qed

lemma unat_byte_div: "unat (b :: byte) div 16 < 16"
  using unsigned_less [of b, where 'a = nat] by simp

lemma ByteString_HEX_toString: "ByteString_HEX (toString bs) = Inr bs"
  by (induction bs) (simp_all add: hexValue_hexDigit unat_byte_div thenE_def del: hexValue.simps)

lemma ByteString_HEX_00: "ByteString_HEX ''00'' = Inr [0]"
  by (simp add: thenE_def)

lemma ByteString_HEX_01: "ByteString_HEX ''01'' = Inr [1]"
  by (simp add: thenE_def)

lemma ByteString_HEX_04: "ByteString_HEX ''04'' = Inr [4]"
  by (simp add: thenE_def)

lemma toInteger_of_nat: "toInteger (of_nat n) = int n"
  by (simp add: toInteger_def)

lemma bytes_of_nat:
  "a + n \<le> length bs \<Longrightarrow> bytes bs (of_nat a) (of_nat n) = Inr (take n (drop a bs))"
  by (simp add: bytes_def toInteger_of_nat Let_def)

section \<open>Properties of the point codec\<close>

lemma encodeUncompressedECPoint_eq: "encodeUncompressedECPoint x y = Inr (4 # x @ y)"
  by (simp add: encodeUncompressedECPoint_def ByteString_HEX_toString ByteString_HEX_04 thenE_def
      new_ByteBuffer_def append_def toByteString_def del: ByteString_HEX.simps)

lemma decodeUncompressedECPoint_eq:
  assumes "length p = 1 + 2 * n"
  shows "decodeUncompressedECPoint p = Inr (take n (drop 1 p), take n (drop (1 + n) p))"
proof -
  have s: "(of_int (int (length p) - 1) :: rat) / 2 = of_nat n"
    using assms by simp
  have b1: "bytes p 1 (of_nat n) = Inr (take n (drop 1 p))"
    using bytes_of_nat [of 1 n p] assms by simp
  have b2: "bytes p (1 + of_nat n) (of_nat n) = Inr (take n (drop (1 + n) p))"
    using bytes_of_nat [of "1 + n" n p] assms by simp
  show ?thesis
    unfolding decodeUncompressedECPoint_def Let_def s b1 b2 by (simp add: thenE_def)
qed

lemma decodeUncompressedECPoint_marked:
  "length x = length y \<Longrightarrow> decodeUncompressedECPoint (m # x @ y) = Inr (x, y)"
  using decodeUncompressedECPoint_eq [of "m # x @ y" "length y"] by simp

text \<open>
  C6. For all byte sequences x and y, encodeUncompressedECPoint returns the marker byte 04,
  then the bytes of x, then the bytes of y, and nothing else; for x = 12 34 and
  y = 56 78 these are the five bytes 04 12 34 56 78.
\<close>

theorem encodeUncompressedECPoint_layout:
  "encodeUncompressedECPoint x y = Inr ([0x04] @ x @ y) \<and>
   encodeUncompressedECPoint [0x12, 0x34] [0x56, 0x78] = Inr [0x04, 0x12, 0x34, 0x56, 0x78]"
  by (simp add: encodeUncompressedECPoint_eq)

text \<open>
  C7. For every byte sequence p of length 1 + 2n, decodeUncompressedECPoint returns as x the
  n bytes at positions 1 to n and as y the n bytes at positions 1 + n to 2n, whatever the
  first byte of p is.
\<close>

theorem decodeUncompressedECPoint_slices:
  "length p = 1 + 2 * n \<Longrightarrow>
   decodeUncompressedECPoint p = Inr (take n (drop 1 p), take n (drop (1 + n) p))"
  by (rule decodeUncompressedECPoint_eq)

theorem decodeUncompressedECPoint_slices_witness:
  "length [0x07, 0x12, 0x34, 0x56, 0x78 :: byte] = 1 + 2 * 2 \<and>
   decodeUncompressedECPoint [0x07, 0x12, 0x34, 0x56, 0x78] = Inr ([0x12, 0x34], [0x56, 0x78])"
  using decodeUncompressedECPoint_slices [of "[0x07, 0x12, 0x34, 0x56, 0x78]" 2] by simp

text \<open>
  C5. For byte sequences x and y of equal length, decoding the encoded point gives back
  the pair (x, y).
\<close>

theorem point_roundtrip:
  "length x = length y \<Longrightarrow>
   thenE (encodeUncompressedECPoint x y) decodeUncompressedECPoint = Inr (x, y)"
  by (simp add: encodeUncompressedECPoint_eq thenE_def decodeUncompressedECPoint_marked)

theorem point_roundtrip_witness:
  "length [0x12, 0x34 :: byte] = length [0x56, 0x78 :: byte] \<and>
   thenE (encodeUncompressedECPoint [0x12, 0x34] [0x56, 0x78]) decodeUncompressedECPoint
     = Inr ([0x12, 0x34], [0x56, 0x78])"
  using point_roundtrip [of "[0x12, 0x34]" "[0x56, 0x78]"] by simp

section \<open>Properties of stripLeadingZeros\<close>

lemma stripLeadingZeros_loop_eq:
  "i \<le> length v \<Longrightarrow>
   stripLeadingZeros_loop v i = i + length (takeWhile (\<lambda>b. b = 0) (drop i v))"
proof (induction v i rule: stripLeadingZeros_loop.induct)
  case (1 v i)
  show ?case
  proof (cases "i < length v \<and> byteAt v i = Inr 0")
    case True
    then have z: "v ! i = 0"
      by (simp add: byteAt_def unat_eq_0 split: if_splits)
    have d: "drop i v = v ! i # drop (Suc i) v"
      using True by (simp add: Cons_nth_drop_Suc)
    have "stripLeadingZeros_loop v i = stripLeadingZeros_loop v (i + 1)"
      using True by (subst stripLeadingZeros_loop.simps) simp
    also have "\<dots> = (i + 1) + length (takeWhile (\<lambda>b. b = 0) (drop (i + 1) v))"
      using "1.IH" True by simp
    finally show ?thesis
      using d z by simp
  next
    case False
    then have "stripLeadingZeros_loop v i = i"
      by (subst stripLeadingZeros_loop.simps) (rule if_not_P)
    moreover have "takeWhile (\<lambda>b. b = 0) (drop i v) = []"
    proof (cases "i < length v")
      case True
      then have "v ! i \<noteq> 0"
        using False by (simp add: byteAt_def unat_eq_0)
      moreover have "drop i v = v ! i # drop (Suc i) v"
        using True by (simp add: Cons_nth_drop_Suc)
      ultimately show ?thesis by simp
    next
      case False
      then show ?thesis by simp
    qed
    ultimately show ?thesis by simp
  qed
qed

lemma stripLeadingZeros_eq: "stripLeadingZeros v = Inr (dropWhile (\<lambda>b. b = 0) v)"
proof -
  let ?k = "length (takeWhile (\<lambda>b. b = 0) v)"
  have i: "stripLeadingZeros_loop v 0 = ?k"
    using stripLeadingZeros_loop_eq [of 0 v] by simp
  have k: "?k \<le> length v"
    by (rule length_takeWhile_le)
  have "drop ?k v = dropWhile (\<lambda>b. b = 0) v"
    by (rule dropWhile_eq_drop [symmetric])
  then show ?thesis
    using k by (simp add: stripLeadingZeros_def i right_def Let_def)
qed

text \<open>
  C8. stripLeadingZeros removes exactly the longest prefix of zero bytes: a sequence of n zero
  bytes, for any n, becomes the empty sequence, and 00 01 FF becomes 01 FF.
\<close>

theorem stripLeadingZeros_maximal_prefix:
  "stripLeadingZeros v = Inr (dropWhile (\<lambda>b. b = 0) v) \<and>
   stripLeadingZeros (replicate n 0) = Inr [] \<and>
   stripLeadingZeros [0x00, 0x01, 0xFF] = Inr [0x01, 0xFF]"
  by (simp add: stripLeadingZeros_eq)

section \<open>Properties of the ASN.1 encoding\<close>

lemma bigEndianValue_snoc: "bigEndianValue (bs @ [b]) = 256 * bigEndianValue bs + unat b"
  by (simp add: bigEndianValue_def)

lemma unat_of_nat_byte: "n < 256 \<Longrightarrow> unat (of_nat n :: byte) = n"
  by (simp add: unat_of_nat)

lemma bigEndianValue_bigEndian: "bigEndianValue (bigEndian n) = n"
proof (induction n rule: bigEndian.induct)
  case (1 n)
  show ?case
  proof (cases "n < 256")
    case True
    then show ?thesis
      by (subst bigEndian.simps) (simp add: bigEndianValue_def unat_of_nat_byte)
  next
    case False
    then have "bigEndianValue (bigEndian n) = 256 * bigEndianValue (bigEndian (n div 256)) + unat (of_nat (n mod 256) :: byte)"
      by (subst bigEndian.simps) (simp add: bigEndianValue_snoc)
    also have "\<dots> = 256 * (n div 256) + n mod 256"
      using "1.IH" False by (simp add: unat_of_nat_byte)
    finally show ?thesis by simp
  qed
qed

lemma bigEndian_nonempty: "bigEndian n \<noteq> []"
  by (subst bigEndian.simps) simp

lemma bigEndian_length: "n < 256 ^ k \<Longrightarrow> 0 < k \<Longrightarrow> length (bigEndian n) \<le> k"
proof (induction n arbitrary: k rule: bigEndian.induct)
  case (1 n)
  show ?case
  proof (cases "n < 256")
    case True
    then show ?thesis using "1.prems" by (subst bigEndian.simps) simp
  next
    case False
    then obtain j where k: "k = Suc j" and j: "0 < j"
      using "1.prems" by (cases k; cases "k - 1") auto
    have "n div 256 < 256 ^ j"
      using "1.prems"(1) k by (simp add: less_mult_imp_div_less mult.commute)
    then have "length (bigEndian (n div 256)) \<le> j"
      using "1.IH" False j by simp
    then show ?thesis
      using False k by (subst bigEndian.simps) simp
  qed
qed

lemma bigEndian_length8: "n < 2 ^ 64 \<Longrightarrow> length (bigEndian n) \<le> 8"
  using bigEndian_length [of n 8] by simp

lemma length_encodeLength: "n < 2 ^ 64 \<Longrightarrow> length (encodeLength n) \<le> 9"
  using bigEndian_length8 [of n] by (simp add: encodeLength_def Let_def)

lemma decodeLength_encodeLength:
  assumes "n < 2 ^ 64"
  shows "decodeLength (encodeLength n @ r) = Some (n, r)"
proof (cases "n < 128")
  case True
  then show ?thesis
    by (simp add: encodeLength_def decodeLength_def unat_of_nat_byte)
next
  case False
  let ?bs = "bigEndian n"
  have l: "length ?bs \<le> 8" "0 < length ?bs"
    using assms bigEndian_nonempty [of n] by (simp_all add: bigEndian_length8)
  then have u: "unat (128 + of_nat (length ?bs) :: byte) = 128 + length ?bs"
    using unat_of_nat_byte [of "128 + length ?bs"] by simp
  show ?thesis
    using False l by (simp add: encodeLength_def decodeLength_def Let_def u bigEndianValue_bigEndian)
qed

lemma readTLV_tlv:
  "take_bit 5 (unat tag) \<noteq> 31 \<Longrightarrow> length v < 2 ^ 64 \<Longrightarrow> readTLV (tlv tag v @ r) = Some (tag, v, r)"
  by (simp add: readTLV_def tlv_def decodeLength_encodeLength)

lemma parseList_tlv:
  assumes "take_bit 5 (unat tag) \<noteq> 31" "length v < 2 ^ 64"
  shows "parseList (tlv tag v @ r) =
     (case (if isConstructed tag then map_option (Constructed tag) (parseList v)
            else Some (Primitive tag v)) of
        None \<Rightarrow> None
      | Some node \<Rightarrow> map_option ((#) node) (parseList r))"
proof -
  have "tlv tag v \<noteq> []" by (simp add: tlv_def)
  then show ?thesis
    using assms by (subst parseList.simps) (simp add: readTLV_tlv)
qed

lemma length_tlv: "length v < 2 ^ 64 \<Longrightarrow> length (tlv tag v) \<le> length v + 10"
  using length_encodeLength [of "length v"] by (simp add: tlv_def)

lemma length_getBytes_children:
  "(\<And>c. c \<in> set cs \<Longrightarrow> weight c < 2 ^ 64 \<Longrightarrow> length (getBytes c) \<le> weight c) \<Longrightarrow>
   sum_list (map weight cs) < 2 ^ 64 \<Longrightarrow>
   length (concat (map getBytes cs)) \<le> sum_list (map weight cs)"
proof (induction cs)
  case Nil
  then show ?case by simp
next
  case (Cons c cs)
  have "length (getBytes c) \<le> weight c"
    using Cons.prems by simp
  moreover have "length (concat (map getBytes cs)) \<le> sum_list (map weight cs)"
    using Cons.prems by (intro Cons.IH) simp_all
  ultimately show ?case by simp
qed

lemma length_getBytes: "weight n < 2 ^ 64 \<Longrightarrow> length (getBytes n) \<le> weight n"
proof (induction n)
  case (Primitive tag v)
  then show ?case using length_tlv [of v tag] by simp
next
  case (Constructed tag cs)
  have "length (concat (map getBytes cs)) \<le> sum_list (map weight cs)"
    using Constructed by (intro length_getBytes_children) simp_all
  then show ?case
    using Constructed.prems length_tlv [of "concat (map getBytes cs)" tag] by simp
qed

lemma length_content: "sum_list (map weight cs) < 2 ^ 64 \<Longrightarrow>
   length (concat (map getBytes cs)) \<le> sum_list (map weight cs)"
  by (rule length_getBytes_children) (simp_all add: length_getBytes)

lemma parseList_children:
  "(\<And>c r. c \<in> set cs \<Longrightarrow> scriptBuilt c \<Longrightarrow> weight c < 2 ^ 64 \<Longrightarrow>
      parseList (getBytes c @ r) = map_option ((#) (parsedForm c)) (parseList r)) \<Longrightarrow>
   list_all scriptBuilt cs \<Longrightarrow> sum_list (map weight cs) < 2 ^ 64 \<Longrightarrow>
   parseList (concat (map getBytes cs) @ r) = map_option ((@) (map parsedForm cs)) (parseList r)"
proof (induction cs)
  case Nil
  then show ?case by (simp add: option.map_ident)
next
  case (Cons c cs)
  have c: "parseList (getBytes c @ r') = map_option ((#) (parsedForm c)) (parseList r')" for r'
    using Cons.prems by simp
  have cs: "parseList (concat (map getBytes cs) @ r)
      = map_option ((@) (map parsedForm cs)) (parseList r)"
    using Cons.prems by (intro Cons.IH) simp_all
  show ?case
    by (simp add: c cs option.map_comp comp_def)
qed

lemma parseList_Nil: "parseList [] = Some []"
  by (subst parseList.simps) simp

lemma parseList_getBytes:
  "scriptBuilt n \<Longrightarrow> weight n < 2 ^ 64 \<Longrightarrow>
   parseList (getBytes n @ r) = map_option ((#) (parsedForm n)) (parseList r)"
proof (induction n arbitrary: r)
  case (Primitive tag v)
  then show ?case
    by (simp add: parseList_tlv shortTag_def)
next
  case (Constructed tag cs)
  let ?content = "concat (map getBytes cs)"
  have w: "sum_list (map weight cs) < 2 ^ 64"
    using Constructed.prems by simp
  have len: "length ?content < 2 ^ 64"
    using length_content [OF w] w by simp
  have "parseList (?content @ []) = map_option ((@) (map parsedForm cs)) (parseList [])"
    using Constructed w by (intro parseList_children) simp_all
  then have inner: "parseList ?content = Some (map parsedForm cs)"
    by (simp add: parseList_Nil)
  show ?case
    using Constructed.prems(1) len by (simp add: parseList_tlv shortTag_def inner)
qed

lemma new_ASN1_getBytes:
  "scriptBuilt n \<Longrightarrow> weight n < 2 ^ 64 \<Longrightarrow> new_ASN1 (getBytes n) = Inr (parsedForm n)"
  using parseList_getBytes [of n "[]"] by (simp add: new_ASN1_def parseList_Nil)

section \<open>Closed forms of the key codec\<close>

lemma oid_ecPublicKey: "ByteString_OID [1, 2, 840, 10045, 2, 1] = [0x2A, 0x86, 0x48, 0xCE, 0x3D, 0x02, 0x01]"
  by (simp add: arcBytes_def base128.simps)

lemma oid_primeField: "ByteString_OID [1, 2, 840, 10045, 1, 1] = [0x2A, 0x86, 0x48, 0xCE, 0x3D, 0x01, 0x01]"
  by (simp add: arcBytes_def base128.simps)

lemma byteAt_0: "v \<noteq> [] \<Longrightarrow> byteAt v 0 = Inr (unat (hd v))"
  by (simp add: byteAt_def hd_conv_nth)

lemma getComponent_Some: "components k c = Some v \<Longrightarrow> getComponent k c = Inr v"
  by (simp add: getComponent_def)

lemma encodeKey_eq:
  assumes "getType k = Some PRIVATE"
    and "components k ECC_H = Some h" and "components k ECC_P = Some p"
    and "components k ECC_A = Some a" and "components k ECC_B = Some b"
    and "components k ECC_GX = Some gx" and "components k ECC_GY = Some gy"
    and "components k ECC_N = Some n" and "components k ECC_D = Some d"
    and "p \<noteq> []" and "n \<noteq> []"
  shows "encodeKeyUsingPKCS8Format k =
    Inr (getBytes (PrivateKeyInfo (dropWhile (\<lambda>b. b = 0) h) (signPadded p) a b
           (4 # gx @ gy) (signPadded n) d))"
  unfolding encodeKeyUsingPKCS8Format_def PrivateKeyInfo_def oid_ecPublicKey oid_primeField
  by (simp add: assms getComponent_Some byteAt_0 stripLeadingZeros_eq encodeUncompressedECPoint_eq
      ByteString_HEX_00 ByteString_HEX_01 thenE_Inr Let_def
      signPadded_def concat_bs_def
      del: ByteString_HEX.simps ByteString_OID.simps getBytes.simps)

lemma tags:
  "shortTag INTEGER" "shortTag OCTET_STRING" "shortTag OBJECT_IDENTIFIER" "shortTag SEQUENCE"
  "\<not> isConstructed INTEGER" "\<not> isConstructed OCTET_STRING" "\<not> isConstructed OBJECT_IDENTIFIER"
  "isConstructed SEQUENCE"
  by (simp_all add: shortTag_def isConstructed_def INTEGER_def OCTET_STRING_def
      OBJECT_IDENTIFIER_def SEQUENCE_def)

lemma scriptBuilt_PrivateKeyInfo: "scriptBuilt (PrivateKeyInfo h p a b g n d)"
  by (simp add: PrivateKeyInfo_def tags)

lemma weight_PrivateKeyInfo:
  "weight (PrivateKeyInfo h p a b g n d) =
     length h + length p + length a + length b + length g + length n + length d + 196"
  by (simp add: PrivateKeyInfo_def)

lemma decodeKey_PrivateKeyInfo:
  assumes "length h + length p + length a + length b + length g + length n + length d < 2 ^ 40"
  shows "decodeKeyFromPKCS8Format (getBytes (PrivateKeyInfo h p a b g n d)) =
     thenE (decodeUncompressedECPoint g) (\<lambda>c. Inr (decodedKey h p a b (fst c) (snd c) n d))"
proof -
  let ?inner = "Constructed SEQUENCE [Primitive INTEGER [0x01], Primitive OCTET_STRING d]"
  have w: "weight (PrivateKeyInfo h p a b g n d) < 2 ^ 64"
    using assms by (simp add: weight_PrivateKeyInfo)
  have p8: "new_ASN1 (getBytes (PrivateKeyInfo h p a b g n d)) = Inr (parsedForm (PrivateKeyInfo h p a b g n d))"
    by (rule new_ASN1_getBytes [OF scriptBuilt_PrivateKeyInfo w])
  have "weight ?inner < 2 ^ 64"
    using assms by simp
  then have inner: "new_ASN1 (getBytes ?inner) = Inr (parsedForm ?inner)"
    by (intro new_ASN1_getBytes) (simp_all add: tags)
  show ?thesis
    unfolding decodeKeyFromPKCS8Format_def p8
    unfolding PrivateKeyInfo_def
    using inner
    by (simp add: thenE_Inr Let_def tags decodedKey_def del: getBytes.simps)
qed

section \<open>Encoding followed by decoding\<close>

lemma toInteger_half: "0 \<le> l \<Longrightarrow> toInteger (of_int l / 2) = l div 2"
proof -
  assume "0 \<le> l"
  then have "(0::rat) \<le> of_int l / 2" by simp
  moreover have "\<lfloor>(of_int l :: rat) / 2\<rfloor> = l div 2"
    using floor_divide_of_int_eq [of l 2, where 'a = rat] by simp
  ultimately show ?thesis by (simp add: toInteger_def)
qed

lemma toInteger_one_half: "0 \<le> l \<Longrightarrow> toInteger (1 + of_int l / 2) = 1 + l div 2"
proof -
  assume l: "0 \<le> l"
  then have "(0::rat) \<le> 1 + of_int l / 2" by simp
  moreover have "\<lfloor>1 + (of_int l :: rat) / 2\<rfloor> = 1 + l div 2"
    using floor_divide_of_int_eq [of l 2, where 'a = rat] by simp
  ultimately show ?thesis by (simp add: toInteger_def)
qed

lemma bytes_half_x:
  "0 \<le> l \<Longrightarrow> 1 + l div 2 \<le> int (length p) \<Longrightarrow>
   bytes p 1 (of_int l / 2) = Inr (take (nat (l div 2)) (drop 1 p))"
  by (simp add: bytes_def Let_def toInteger_half toInteger_def [of 1])

lemma bytes_half_y:
  "0 \<le> l \<Longrightarrow> 1 + 2 * (l div 2) \<le> int (length p) \<Longrightarrow>
   bytes p (1 + of_int l / 2) (of_int l / 2)
     = Inr (take (nat (l div 2)) (drop (1 + nat (l div 2)) p))"
  by (simp add: bytes_def Let_def toInteger_half toInteger_one_half nat_add_distrib)

lemma decodeUncompressedECPoint_nonempty:
  assumes "p \<noteq> []"
  shows "decodeUncompressedECPoint p =
    Inr (take ((length p - 1) div 2) (drop 1 p),
         take ((length p - 1) div 2) (drop (1 + (length p - 1) div 2) p))"
proof -
  let ?l = "int (length p) - 1"
  let ?n = "(length p - 1) div 2"
  have l: "0 \<le> ?l"
    using assms by (cases p) simp_all
  have n: "nat (?l div 2) = ?n"
    using l by (simp add: nat_div_distrib nat_diff_distrib)
  have fit: "1 + 2 * (?l div 2) \<le> int (length p)"
    by linarith
  then have fit': "1 + ?l div 2 \<le> int (length p)"
    using l by linarith
  have b1: "bytes p 1 (of_int ?l / 2) = Inr (take ?n (drop 1 p))"
    using bytes_half_x [OF l fit'] unfolding n .
  have b2: "bytes p (1 + of_int ?l / 2) (of_int ?l / 2) = Inr (take ?n (drop (1 + ?n) p))"
    using bytes_half_y [OF l fit] unfolding n .
  show ?thesis
    unfolding decodeUncompressedECPoint_def Let_def b1 b2 thenE_Inr ..
qed

lemma decodeUncompressedECPoint_rejoin:
  assumes "even (length x + length y)"
  shows "\<exists>x' y'. decodeUncompressedECPoint (m # x @ y) = Inr (x', y') \<and> x' @ y' = x @ y"
proof -
  define z where "z = x @ y"
  define n where "n = length z div 2"
  have len: "length z = 2 * n"
    using assms by (simp add: z_def n_def)
  then have "take n (drop n z) = drop n z"
    by simp
  then have "take n z @ take n (drop n z) = z"
    by simp
  moreover have "decodeUncompressedECPoint (m # z) = Inr (take n z, take n (drop n z))"
    using decodeUncompressedECPoint_nonempty [of "m # z"] len by simp
  ultimately show ?thesis
    unfolding z_def by blast
qed

lemma holds_component: "holds k c v \<Longrightarrow> components k c = Some v"
  by (simp add: holds_def)

lemma length_signPadded: "length (signPadded v) \<le> length v + 1"
  by (simp add: signPadded_def)

lemma encodeKey_holds:
  assumes "getType k = Some PRIVATE"
    and "holds k ECC_H h" and "holds k ECC_P p" and "holds k ECC_A a" and "holds k ECC_B b"
    and "holds k ECC_GX gx" and "holds k ECC_GY gy" and "holds k ECC_N n" and "holds k ECC_D d"
    and "p \<noteq> []" and "n \<noteq> []"
  shows "encodeKeyUsingPKCS8Format k =
    Inr (getBytes (PrivateKeyInfo (dropWhile (\<lambda>b. b = 0) h) (signPadded p) a b
           (4 # gx @ gy) (signPadded n) d))"
  using assms by (intro encodeKey_eq holds_component)

lemma total_length:
  assumes "holds k ECC_H h" and "holds k ECC_P p" and "holds k ECC_A a" and "holds k ECC_B b"
    and "holds k ECC_GX gx" and "holds k ECC_GY gy" and "holds k ECC_N n" and "holds k ECC_D d"
  shows "length (dropWhile (\<lambda>b. b = 0) h) + length (signPadded p) + length a + length b
     + length (4 # gx @ gy) + length (signPadded n) + length d < 2 ^ 40"
proof -
  have "length (dropWhile (\<lambda>b. b = 0) h) \<le> length h"
    by (rule length_dropWhile_le)
  moreover have "length (signPadded p) \<le> length p + 1" "length (signPadded n) \<le> length n + 1"
    by (rule length_signPadded)+
  moreover have "length h < 2 ^ 31" "length p < 2 ^ 31" "length a < 2 ^ 31" "length b < 2 ^ 31"
    "length gx < 2 ^ 31" "length gy < 2 ^ 31" "length n < 2 ^ 31" "length d < 2 ^ 31"
    using assms by (simp_all add: holds_def)
  ultimately show ?thesis by simp
qed

lemma roundTrip_general:
  assumes "getType k = Some PRIVATE"
    and "holds k ECC_H h" and "holds k ECC_P p" and "holds k ECC_A a" and "holds k ECC_B b"
    and "holds k ECC_GX gx" and "holds k ECC_GY gy" and "holds k ECC_N n" and "holds k ECC_D d"
    and "p \<noteq> []" and "n \<noteq> []"
  shows "thenE (encodeKeyUsingPKCS8Format k) decodeKeyFromPKCS8Format =
    thenE (decodeUncompressedECPoint (4 # gx @ gy)) (\<lambda>c.
      Inr (decodedKey (dropWhile (\<lambda>b. b = 0) h) (signPadded p) a b (fst c) (snd c)
             (signPadded n) d))"
  unfolding encodeKey_holds [OF assms] thenE_Inr
  by (rule decodeKey_PrivateKeyInfo) (rule total_length [OF assms(2-9)])

lemma parsed_general:
  assumes "getType k = Some PRIVATE"
    and "holds k ECC_H h" and "holds k ECC_P p" and "holds k ECC_A a" and "holds k ECC_B b"
    and "holds k ECC_GX gx" and "holds k ECC_GY gy" and "holds k ECC_N n" and "holds k ECC_D d"
    and "p \<noteq> []" and "n \<noteq> []"
  shows "thenE (encodeKeyUsingPKCS8Format k) new_ASN1 =
    Inr (parsedForm (PrivateKeyInfo (dropWhile (\<lambda>b. b = 0) h) (signPadded p) a b
           (4 # gx @ gy) (signPadded n) d))"
proof -
  have "weight (PrivateKeyInfo (dropWhile (\<lambda>b. b = 0) h) (signPadded p) a b
           (4 # gx @ gy) (signPadded n) d) < 2 ^ 64"
    using total_length [OF assms(2-9)] unfolding weight_PrivateKeyInfo by simp
  then show ?thesis
    unfolding encodeKey_holds [OF assms] thenE_Inr
    by (intro new_ASN1_getBytes scriptBuilt_PrivateKeyInfo)
qed

lemma decodedKey_components:
  "getType (decodedKey h p a b gx gy n d) = Some PRIVATE"
  "components (decodedKey h p a b gx gy n d) ECC_H = Some h"
  "components (decodedKey h p a b gx gy n d) ECC_P = Some p"
  "components (decodedKey h p a b gx gy n d) ECC_A = Some a"
  "components (decodedKey h p a b gx gy n d) ECC_B = Some b"
  "components (decodedKey h p a b gx gy n d) ECC_GX = Some gx"
  "components (decodedKey h p a b gx gy n d) ECC_GY = Some gy"
  "components (decodedKey h p a b gx gy n d) ECC_N = Some n"
  "components (decodedKey h p a b gx gy n d) ECC_D = Some d"
  by (simp_all add: decodedKey_def setComponent_def setType_def new_Key_def getType_def)

lemma thenE_assoc: "thenE (thenE m f) g = thenE m (\<lambda>x. thenE (f x) g)"
  by (cases m) (simp_all add: thenE_def)

lemma privateKeyOf_type: "getType (privateKeyOf h p a b gx gy n d) = Some PRIVATE"
  by (simp add: privateKeyOf_def setComponent_def setType_def new_Key_def getType_def)

lemma privateKeyOf_components:
  "components (privateKeyOf h p a b gx gy n d) ECC_H = Some h"
  "components (privateKeyOf h p a b gx gy n d) ECC_P = Some p"
  "components (privateKeyOf h p a b gx gy n d) ECC_A = Some a"
  "components (privateKeyOf h p a b gx gy n d) ECC_B = Some b"
  "components (privateKeyOf h p a b gx gy n d) ECC_GX = Some gx"
  "components (privateKeyOf h p a b gx gy n d) ECC_GY = Some gy"
  "components (privateKeyOf h p a b gx gy n d) ECC_N = Some n"
  "components (privateKeyOf h p a b gx gy n d) ECC_D = Some d"
  by (simp_all add: privateKeyOf_def setComponent_def setType_def new_Key_def)

lemma roundTripComponent_general:
  assumes "getType k = Some PRIVATE"
    and "holds k ECC_H h" and "holds k ECC_P p" and "holds k ECC_A a" and "holds k ECC_B b"
    and "holds k ECC_GX gx" and "holds k ECC_GY gy" and "holds k ECC_N n" and "holds k ECC_D d"
    and "p \<noteq> []" and "n \<noteq> []"
  shows "roundTripComponent k c =
    thenE (decodeUncompressedECPoint (4 # gx @ gy)) (\<lambda>xy.
      getComponent (decodedKey (dropWhile (\<lambda>b. b = 0) h) (signPadded p) a b (fst xy) (snd xy)
             (signPadded n) d) c)"
proof -
  have "roundTripComponent k c
      = thenE (thenE (encodeKeyUsingPKCS8Format k) decodeKeyFromPKCS8Format)
          (\<lambda>k'. getComponent k' c)"
    by (simp add: roundTripComponent_def thenE_assoc)
  then show ?thesis
    unfolding roundTrip_general [OF assms] by (simp add: thenE_assoc thenE_Inr)
qed

lemma encodedNode_general:
  assumes "getType k = Some PRIVATE"
    and "holds k ECC_H h" and "holds k ECC_P p" and "holds k ECC_A a" and "holds k ECC_B b"
    and "holds k ECC_GX gx" and "holds k ECC_GY gy" and "holds k ECC_N n" and "holds k ECC_D d"
    and "p \<noteq> []" and "n \<noteq> []"
  shows "encodedNode k path =
    nodeAt (parsedForm (PrivateKeyInfo (dropWhile (\<lambda>b. b = 0) h) (signPadded p) a b
           (4 # gx @ gy) (signPadded n) d)) path"
proof -
  have "encodedNode k path
      = thenE (thenE (encodeKeyUsingPKCS8Format k) new_ASN1) (\<lambda>tree. nodeAt tree path)"
    by (simp add: encodedNode_def thenE_assoc)
  then show ?thesis
    unfolding parsed_general [OF assms] by (simp add: thenE_Inr)
qed

lemma nodeAt_PrivateKeyInfo:
  "nodeAt (parsedForm (PrivateKeyInfo h p a b g n d)) [1, 1, 0] = Inr (Primitive INTEGER h)"
  "nodeAt (parsedForm (PrivateKeyInfo h p a b g n d)) [1, 1, 1, 1] = Inr (Primitive INTEGER p)"
  "nodeAt (parsedForm (PrivateKeyInfo h p a b g n d)) [1, 1, 2, 0] = Inr (Primitive OCTET_STRING a)"
  "nodeAt (parsedForm (PrivateKeyInfo h p a b g n d)) [1, 1, 2, 1] = Inr (Primitive OCTET_STRING b)"
  "nodeAt (parsedForm (PrivateKeyInfo h p a b g n d)) [1, 1, 3] = Inr (Primitive OCTET_STRING g)"
  "nodeAt (parsedForm (PrivateKeyInfo h p a b g n d)) [1, 1, 4] = Inr (Primitive INTEGER n)"
  by (simp_all add: PrivateKeyInfo_def tags thenE_Inr)

section \<open>The encoded integers\<close>

text \<open>
  C3. In the output of encodeKeyUsingPKCS8Format, parsed and read at the positions of the
  prime and of the order: if the first byte of P (of N) is 80 or more, the value of the
  INTEGER is a zero byte followed by the bytes of P (of N); otherwise it is the bytes of
  P (of N), unchanged.
\<close>

theorem sign_padding_of_P_and_N:
  assumes "getType k = Some PRIVATE"
    and "holds k ECC_H h" and "holds k ECC_P p" and "holds k ECC_A a" and "holds k ECC_B b"
    and "holds k ECC_GX gx" and "holds k ECC_GY gy" and "holds k ECC_N n" and "holds k ECC_D d"
    and "p \<noteq> []" and "n \<noteq> []"
  shows "encodedNode k [1, 1, 1, 1]
           = Inr (Primitive INTEGER (if 0x80 \<le> unat (hd p) then 0x00 # p else p)) \<and>
         encodedNode k [1, 1, 4]
           = Inr (Primitive INTEGER (if 0x80 \<le> unat (hd n) then 0x00 # n else n))"
  unfolding encodedNode_general [OF assms] nodeAt_PrivateKeyInfo signPadded_def by simp

lemma holds_privateKeyOf:
  assumes "length h < 2 ^ 31" "length p < 2 ^ 31" "length a < 2 ^ 31" "length b < 2 ^ 31"
    "length gx < 2 ^ 31" "length gy < 2 ^ 31" "length n < 2 ^ 31" "length d < 2 ^ 31"
  shows "holds (privateKeyOf h p a b gx gy n d) ECC_H h"
    "holds (privateKeyOf h p a b gx gy n d) ECC_P p"
    "holds (privateKeyOf h p a b gx gy n d) ECC_A a"
    "holds (privateKeyOf h p a b gx gy n d) ECC_B b"
    "holds (privateKeyOf h p a b gx gy n d) ECC_GX gx"
    "holds (privateKeyOf h p a b gx gy n d) ECC_GY gy"
    "holds (privateKeyOf h p a b gx gy n d) ECC_N n"
    "holds (privateKeyOf h p a b gx gy n d) ECC_D d"
  using assms by (simp_all add: holds_def privateKeyOf_components)

theorem sign_padding_of_P_and_N_witness:
  "getType (privateKeyOf [0x00, 0x01] [0xFF, 0x01] [3] [4] [0x12, 0x34] [0x56, 0x78] [0x7F] [9])
     = Some PRIVATE \<and>
   holds (privateKeyOf [0x00, 0x01] [0xFF, 0x01] [3] [4] [0x12, 0x34] [0x56, 0x78] [0x7F] [9])
     ECC_P [0xFF, 0x01] \<and>
   holds (privateKeyOf [0x00, 0x01] [0xFF, 0x01] [3] [4] [0x12, 0x34] [0x56, 0x78] [0x7F] [9])
     ECC_N [0x7F] \<and>
   encodedNode (privateKeyOf [0x00, 0x01] [0xFF, 0x01] [3] [4] [0x12, 0x34] [0x56, 0x78] [0x7F] [9])
     [1, 1, 1, 1] = Inr (Primitive INTEGER [0x00, 0xFF, 0x01]) \<and>
   encodedNode (privateKeyOf [0x00, 0x01] [0xFF, 0x01] [3] [4] [0x12, 0x34] [0x56, 0x78] [0x7F] [9])
     [1, 1, 4] = Inr (Primitive INTEGER [0x7F])"
proof -
  let ?k = "privateKeyOf [0x00, 0x01] [0xFF, 0x01] [3] [4] [0x12, 0x34] [0x56, 0x78] [0x7F] [9]"
  note h = holds_privateKeyOf [of "[0x00, 0x01]" "[0xFF, 0x01]" "[3]" "[4]" "[0x12, 0x34]"
      "[0x56, 0x78]" "[0x7F]" "[9]", simplified]
  have t: "getType ?k = Some PRIVATE"
    by (rule privateKeyOf_type)
  have "encodedNode ?k [1, 1, 1, 1] = Inr (Primitive INTEGER [0x00, 0xFF, 0x01]) \<and>
        encodedNode ?k [1, 1, 4] = Inr (Primitive INTEGER [0x7F])"
    using sign_padding_of_P_and_N [OF t h] by simp
  then show ?thesis
    using t h(2) h(7) by simp
qed

text \<open>
  C4, as the code has it. In the output of encodeKeyUsingPKCS8Format the cofactor is an
  INTEGER whose value is H without its leading zero bytes, and nothing is put in front of
  it, whatever its first byte; A and B are OCTET STRINGs that carry their bytes unchanged.
\<close>

theorem cofactor_and_coefficients:
  assumes "getType k = Some PRIVATE"
    and "holds k ECC_H h" and "holds k ECC_P p" and "holds k ECC_A a" and "holds k ECC_B b"
    and "holds k ECC_GX gx" and "holds k ECC_GY gy" and "holds k ECC_N n" and "holds k ECC_D d"
    and "p \<noteq> []" and "n \<noteq> []"
  shows "encodedNode k [1, 1, 0] = Inr (Primitive INTEGER (dropWhile (\<lambda>b. b = 0) h)) \<and>
         encodedNode k [1, 1, 2, 0] = Inr (Primitive OCTET_STRING a) \<and>
         encodedNode k [1, 1, 2, 1] = Inr (Primitive OCTET_STRING b)"
  unfolding encodedNode_general [OF assms] nodeAt_PrivateKeyInfo by simp

theorem cofactor_and_coefficients_witness:
  "getType (privateKeyOf [0x00, 0x01] [0xFF, 0x01] [0x83] [0x00, 0x04] [0x12, 0x34] [0x56, 0x78] [0x7F] [9])
     = Some PRIVATE \<and>
   holds (privateKeyOf [0x00, 0x01] [0xFF, 0x01] [0x83] [0x00, 0x04] [0x12, 0x34] [0x56, 0x78] [0x7F] [9])
     ECC_H [0x00, 0x01] \<and>
   encodedNode (privateKeyOf [0x00, 0x01] [0xFF, 0x01] [0x83] [0x00, 0x04] [0x12, 0x34] [0x56, 0x78] [0x7F] [9])
     [1, 1, 0] = Inr (Primitive INTEGER [0x01]) \<and>
   encodedNode (privateKeyOf [0x00, 0x01] [0xFF, 0x01] [0x83] [0x00, 0x04] [0x12, 0x34] [0x56, 0x78] [0x7F] [9])
     [1, 1, 2, 0] = Inr (Primitive OCTET_STRING [0x83]) \<and>
   encodedNode (privateKeyOf [0x00, 0x01] [0xFF, 0x01] [0x83] [0x00, 0x04] [0x12, 0x34] [0x56, 0x78] [0x7F] [9])
     [1, 1, 2, 1] = Inr (Primitive OCTET_STRING [0x00, 0x04])"
proof -
  let ?k = "privateKeyOf [0x00, 0x01] [0xFF, 0x01] [0x83] [0x00, 0x04] [0x12, 0x34] [0x56, 0x78] [0x7F] [9]"
  note h = holds_privateKeyOf [of "[0x00, 0x01]" "[0xFF, 0x01]" "[0x83]" "[0x00, 0x04]"
      "[0x12, 0x34]" "[0x56, 0x78]" "[0x7F]" "[9]", simplified]
  have t: "getType ?k = Some PRIVATE"
    by (rule privateKeyOf_type)
  have "encodedNode ?k [1, 1, 0] = Inr (Primitive INTEGER [0x01]) \<and>
        encodedNode ?k [1, 1, 2, 0] = Inr (Primitive OCTET_STRING [0x83]) \<and>
        encodedNode ?k [1, 1, 2, 1] = Inr (Primitive OCTET_STRING [0x00, 0x04])"
    using cofactor_and_coefficients [OF t h] by simp
  then show ?thesis
    using t h(1) by simp
qed

text \<open>
  The claim C4 as it is written fails: a cofactor 80 is encoded as the single byte 80,
  with no zero byte in front.
\<close>

theorem cofactor_sign_padding_counterexample:
  "getComponent (privateKeyOf [0x80] [0xFF, 0x01] [3] [4] [0x12, 0x34] [0x56, 0x78] [0x7F] [9]) ECC_H
     = Inr [0x80] \<and>
   encodedNode (privateKeyOf [0x80] [0xFF, 0x01] [3] [4] [0x12, 0x34] [0x56, 0x78] [0x7F] [9])
     [1, 1, 0] = Inr (Primitive INTEGER [0x80]) \<and>
   encodedNode (privateKeyOf [0x80] [0xFF, 0x01] [3] [4] [0x12, 0x34] [0x56, 0x78] [0x7F] [9])
     [1, 1, 0] \<noteq> Inr (Primitive INTEGER [0x00, 0x80])"
proof -
  let ?k = "privateKeyOf [0x80] [0xFF, 0x01] [3] [4] [0x12, 0x34] [0x56, 0x78] [0x7F] [9]"
  note h = holds_privateKeyOf [of "[0x80]" "[0xFF, 0x01]" "[3]" "[4]" "[0x12, 0x34]"
      "[0x56, 0x78]" "[0x7F]" "[9]", simplified]
  have "encodedNode ?k [1, 1, 0] = Inr (Primitive INTEGER [0x80])"
    unfolding encodedNode_general [OF privateKeyOf_type h, simplified] nodeAt_PrivateKeyInfo
    by simp
  then show ?thesis
    by (simp add: getComponent_def privateKeyOf_components)
qed

section \<open>Round trips\<close>

text \<open>
  C1, as the code has it. For a private key whose eight components are set, with P and N
  not empty and GX as long as GY, decoding the encoded key gives D, GX, GY, A and B byte for
  byte, H without its leading zero bytes, and P and N as they were encoded: unchanged when
  their first byte is below 80, and behind a zero byte otherwise.
\<close>

theorem roundTrip_components:
  assumes "getType k = Some PRIVATE"
    and "holds k ECC_H h" and "holds k ECC_P p" and "holds k ECC_A a" and "holds k ECC_B b"
    and "holds k ECC_GX gx" and "holds k ECC_GY gy" and "holds k ECC_N n" and "holds k ECC_D d"
    and "p \<noteq> []" and "n \<noteq> []" and "length gx = length gy"
  shows "roundTripComponent k ECC_D = Inr d \<and>
         roundTripComponent k ECC_GX = Inr gx \<and>
         roundTripComponent k ECC_GY = Inr gy \<and>
         roundTripComponent k ECC_A = Inr a \<and>
         roundTripComponent k ECC_B = Inr b \<and>
         roundTripComponent k ECC_H = Inr (dropWhile (\<lambda>b. b = 0) h) \<and>
         roundTripComponent k ECC_P = Inr (if 0x80 \<le> unat (hd p) then 0x00 # p else p) \<and>
         roundTripComponent k ECC_N = Inr (if 0x80 \<le> unat (hd n) then 0x00 # n else n)"
  unfolding roundTripComponent_general [OF assms(1-11)]
    decodeUncompressedECPoint_marked [OF assms(12)] thenE_Inr
  by (simp add: getComponent_def decodedKey_components signPadded_def)

theorem roundTrip_components_witness:
  "getType (privateKeyOf [0x00, 0x01] [0x7F, 0x01] [3] [4] [0x12, 0x34] [0x56, 0x78] [0xFF] [9])
     = Some PRIVATE \<and>
   holds (privateKeyOf [0x00, 0x01] [0x7F, 0x01] [3] [4] [0x12, 0x34] [0x56, 0x78] [0xFF] [9])
     ECC_GX [0x12, 0x34] \<and>
   holds (privateKeyOf [0x00, 0x01] [0x7F, 0x01] [3] [4] [0x12, 0x34] [0x56, 0x78] [0xFF] [9])
     ECC_GY [0x56, 0x78] \<and>
   roundTripComponent
     (privateKeyOf [0x00, 0x01] [0x7F, 0x01] [3] [4] [0x12, 0x34] [0x56, 0x78] [0xFF] [9]) ECC_GX
     = Inr [0x12, 0x34] \<and>
   roundTripComponent
     (privateKeyOf [0x00, 0x01] [0x7F, 0x01] [3] [4] [0x12, 0x34] [0x56, 0x78] [0xFF] [9]) ECC_H
     = Inr [0x01] \<and>
   roundTripComponent
     (privateKeyOf [0x00, 0x01] [0x7F, 0x01] [3] [4] [0x12, 0x34] [0x56, 0x78] [0xFF] [9]) ECC_P
     = Inr [0x7F, 0x01] \<and>
   roundTripComponent
     (privateKeyOf [0x00, 0x01] [0x7F, 0x01] [3] [4] [0x12, 0x34] [0x56, 0x78] [0xFF] [9]) ECC_N
     = Inr [0x00, 0xFF]"
proof -
  let ?k = "privateKeyOf [0x00, 0x01] [0x7F, 0x01] [3] [4] [0x12, 0x34] [0x56, 0x78] [0xFF] [9]"
  note h = holds_privateKeyOf [of "[0x00, 0x01]" "[0x7F, 0x01]" "[3]" "[4]" "[0x12, 0x34]"
      "[0x56, 0x78]" "[0xFF]" "[9]", simplified]
  have t: "getType ?k = Some PRIVATE"
    by (rule privateKeyOf_type)
  have "roundTripComponent ?k ECC_GX = Inr [0x12, 0x34] \<and>
        roundTripComponent ?k ECC_H = Inr [0x01] \<and>
        roundTripComponent ?k ECC_P = Inr [0x7F, 0x01] \<and>
        roundTripComponent ?k ECC_N = Inr [0x00, 0xFF]"
    using roundTrip_components [OF t h] by simp
  then show ?thesis
    using t h(5) h(6) by simp
qed

lemma decodeUncompressedECPoint_1234:
  "decodeUncompressedECPoint [4, 0x12, 0x34, 0x56, 0x78] = Inr ([0x12, 0x34], [0x56, 0x78])"
  using decodeUncompressedECPoint_marked [of "[0x12, 0x34]" "[0x56, 0x78]" 4] by simp

lemma decodeUncompressedECPoint_4: "decodeUncompressedECPoint [4, 1, 2, 3, 4] = Inr ([1, 2], [3, 4])"
  using decodeUncompressedECPoint_marked [of "[1, 2]" "[3, 4]" 4] by simp

lemma decodeUncompressedECPoint_3: "decodeUncompressedECPoint [4, 1, 2, 3] = Inr ([1], [2])"
  using decodeUncompressedECPoint_nonempty [of "[4, 1, 2, 3]"] by simp

text \<open>
  The claim C1 as it is written fails: a P that begins with FF comes back with a zero
  byte in front, and a GX of one byte beside a GY of three comes back as two bytes.
\<close>

theorem roundTrip_counterexample:
  "getComponent (privateKeyOf [0x01] [0xFF, 0x01] [3] [4] [0x12, 0x34] [0x56, 0x78] [0x7F] [9]) ECC_P
     = Inr [0xFF, 0x01] \<and>
   roundTripComponent
     (privateKeyOf [0x01] [0xFF, 0x01] [3] [4] [0x12, 0x34] [0x56, 0x78] [0x7F] [9]) ECC_P
     = Inr [0x00, 0xFF, 0x01] \<and>
   getComponent (privateKeyOf [0x01] [0x7F] [3] [4] [1] [2, 3, 4] [7] [9]) ECC_GX = Inr [1] \<and>
   roundTripComponent (privateKeyOf [0x01] [0x7F] [3] [4] [1] [2, 3, 4] [7] [9]) ECC_GX
     = Inr [1, 2]"
proof -
  let ?k = "privateKeyOf [0x01] [0xFF, 0x01] [3] [4] [0x12, 0x34] [0x56, 0x78] [0x7F] [9]"
  let ?k' = "privateKeyOf [0x01] [0x7F] [3] [4] [1] [2, 3, 4] [7] [9]"
  note h = holds_privateKeyOf [of "[0x01]" "[0xFF, 0x01]" "[3]" "[4]" "[0x12, 0x34]"
      "[0x56, 0x78]" "[0x7F]" "[9]", simplified]
  note h' = holds_privateKeyOf [of "[0x01]" "[0x7F]" "[3]" "[4]" "[1]" "[2, 3, 4]" "[7]" "[9]",
      simplified]
  have "roundTripComponent ?k ECC_P = Inr [0x00, 0xFF, 0x01]"
    unfolding roundTripComponent_general [OF privateKeyOf_type h, simplified]
    by (simp add: decodeUncompressedECPoint_1234 thenE_Inr getComponent_def
        decodedKey_components signPadded_def)
  moreover have "roundTripComponent ?k' ECC_GX = Inr [1, 2]"
    unfolding roundTripComponent_general [OF privateKeyOf_type h', simplified]
    by (simp add: decodeUncompressedECPoint_4 thenE_Inr getComponent_def decodedKey_components)
  ultimately show ?thesis
    by (simp add: getComponent_def privateKeyOf_components)
qed

subsection \<open>Encoding again\<close>

lemma signPadded_idem: "signPadded (signPadded v) = signPadded v"
  by (simp add: signPadded_def)

lemma signPadded_nonempty: "v \<noteq> [] \<Longrightarrow> signPadded v \<noteq> []"
  by (simp add: signPadded_def)

lemma reencode_general:
  assumes "getType k = Some PRIVATE"
    and "holds k ECC_H h" and "holds k ECC_P p" and "holds k ECC_A a" and "holds k ECC_B b"
    and "holds k ECC_GX gx" and "holds k ECC_GY gy" and "holds k ECC_N n" and "holds k ECC_D d"
    and "p \<noteq> []" and "n \<noteq> []"
  shows "reencode k =
    thenE (decodeUncompressedECPoint (4 # gx @ gy)) (\<lambda>xy.
      Inr (getBytes (PrivateKeyInfo (dropWhile (\<lambda>b. b = 0) h) (signPadded p) a b
             (4 # fst xy @ snd xy) (signPadded n) d)))"
proof -
  have e: "encodeKeyUsingPKCS8Format
        (decodedKey (dropWhile (\<lambda>b. b = 0) h) (signPadded p) a b x y (signPadded n) d)
      = Inr (getBytes (PrivateKeyInfo (dropWhile (\<lambda>b. b = 0) h) (signPadded p) a b
             (4 # x @ y) (signPadded n) d))" for x y
    using encodeKey_eq [of "decodedKey (dropWhile (\<lambda>b. b = 0) h) (signPadded p) a b x y
          (signPadded n) d" "dropWhile (\<lambda>b. b = 0) h" "signPadded p" a b x y "signPadded n" d]
      assms(10,11)
    by (simp add: decodedKey_components signPadded_nonempty signPadded_idem)
  have "reencode k
      = thenE (thenE (encodeKeyUsingPKCS8Format k) decodeKeyFromPKCS8Format)
          encodeKeyUsingPKCS8Format"
    by (simp add: reencode_def thenE_assoc)
  then show ?thesis
    unfolding roundTrip_general [OF assms] by (simp add: thenE_assoc thenE_Inr e)
qed

text \<open>
  C2, as the code has it. For a private key whose eight components are set, with P and N
  not empty and the lengths of GX and GY adding up to an even number, the encoder
  succeeds, and encoding the decoded key gives the same bytes again.
\<close>

theorem reencode_stable:
  assumes "getType k = Some PRIVATE"
    and "holds k ECC_H h" and "holds k ECC_P p" and "holds k ECC_A a" and "holds k ECC_B b"
    and "holds k ECC_GX gx" and "holds k ECC_GY gy" and "holds k ECC_N n" and "holds k ECC_D d"
    and "p \<noteq> []" and "n \<noteq> []" and "even (length gx + length gy)"
  shows "\<exists>out. encodeKeyUsingPKCS8Format k = Inr out \<and> reencode k = Inr out"
proof -
  obtain x y where xy: "decodeUncompressedECPoint (4 # gx @ gy) = Inr (x, y)" "x @ y = gx @ gy"
    using decodeUncompressedECPoint_rejoin [OF assms(12)] by blast
  show ?thesis
    unfolding reencode_general [OF assms(1-11)] encodeKey_holds [OF assms(1-11)] xy(1) thenE_Inr
    by (simp add: xy(2))
qed

theorem reencode_stable_witness:
  "getType (privateKeyOf [0x00, 0x01] [0xFF, 0x01] [3] [4] [0x12, 0x34] [0x56, 0x78] [0x7F] [9])
     = Some PRIVATE \<and>
   holds (privateKeyOf [0x00, 0x01] [0xFF, 0x01] [3] [4] [0x12, 0x34] [0x56, 0x78] [0x7F] [9])
     ECC_GX [0x12, 0x34] \<and>
   holds (privateKeyOf [0x00, 0x01] [0xFF, 0x01] [3] [4] [0x12, 0x34] [0x56, 0x78] [0x7F] [9])
     ECC_GY [0x56, 0x78] \<and>
   even (length [0x12, 0x34 :: byte] + length [0x56, 0x78 :: byte]) \<and>
   (\<exists>out.
      encodeKeyUsingPKCS8Format
        (privateKeyOf [0x00, 0x01] [0xFF, 0x01] [3] [4] [0x12, 0x34] [0x56, 0x78] [0x7F] [9])
        = Inr out \<and>
      reencode (privateKeyOf [0x00, 0x01] [0xFF, 0x01] [3] [4] [0x12, 0x34] [0x56, 0x78] [0x7F] [9])
        = Inr out)"
proof -
  let ?k = "privateKeyOf [0x00, 0x01] [0xFF, 0x01] [3] [4] [0x12, 0x34] [0x56, 0x78] [0x7F] [9]"
  note h = holds_privateKeyOf [of "[0x00, 0x01]" "[0xFF, 0x01]" "[3]" "[4]" "[0x12, 0x34]"
      "[0x56, 0x78]" "[0x7F]" "[9]", simplified]
  have t: "getType ?k = Some PRIVATE"
    by (rule privateKeyOf_type)
  have "\<exists>out. encodeKeyUsingPKCS8Format ?k = Inr out \<and> reencode ?k = Inr out"
    by (rule reencode_stable [OF t h]) simp_all
  then show ?thesis
    using t h(5) h(6) by simp
qed

lemmas tag_values = SEQUENCE_def INTEGER_def OCTET_STRING_def OBJECT_IDENTIFIER_def

lemma getBytes_odd:
  "getBytes (PrivateKeyInfo [1] [0x7F] [3] [4] [4, 1, 2, 3] [7] [9]) =
     [48, 60, 2, 1, 0, 48, 45, 6, 7, 42, 134, 72, 206, 61, 2, 1, 48, 34, 2,
      1, 1, 48, 12, 6, 7, 42, 134, 72, 206, 61, 1, 1, 2, 1, 127, 48, 6, 4,
      1, 3, 4, 1, 4, 4, 4, 4, 1, 2, 3, 2, 1, 7, 4, 8, 48, 6, 2, 1, 1, 4, 1, 9]"
  by (simp add: PrivateKeyInfo_def tlv_def encodeLength_def tag_values)

lemma getBytes_odd':
  "getBytes (PrivateKeyInfo [1] [0x7F] [3] [4] [4, 1, 2] [7] [9]) =
     [48, 59, 2, 1, 0, 48, 44, 6, 7, 42, 134, 72, 206, 61, 2, 1, 48, 33, 2,
      1, 1, 48, 12, 6, 7, 42, 134, 72, 206, 61, 1, 1, 2, 1, 127, 48, 6, 4,
      1, 3, 4, 1, 4, 4, 3, 4, 1, 2, 2, 1, 7, 4, 8, 48, 6, 2, 1, 1, 4, 1, 9]"
  by (simp add: PrivateKeyInfo_def tlv_def encodeLength_def tag_values)

text \<open>
  The claim C2 as it is written fails: with a GX of one byte and a GY of two, the decoder
  halves the three bytes into one byte each, and the second encoding is a byte shorter.
\<close>

theorem reencode_counterexample:
  "encodeKeyUsingPKCS8Format (privateKeyOf [1] [0x7F] [3] [4] [1] [2, 3] [7] [9]) =
     Inr [48, 60, 2, 1, 0, 48, 45, 6, 7, 42, 134, 72, 206, 61, 2, 1, 48, 34, 2,
      1, 1, 48, 12, 6, 7, 42, 134, 72, 206, 61, 1, 1, 2, 1, 127, 48, 6, 4,
      1, 3, 4, 1, 4, 4, 4, 4, 1, 2, 3, 2, 1, 7, 4, 8, 48, 6, 2, 1, 1, 4, 1, 9] \<and>
   reencode (privateKeyOf [1] [0x7F] [3] [4] [1] [2, 3] [7] [9]) =
     Inr [48, 59, 2, 1, 0, 48, 44, 6, 7, 42, 134, 72, 206, 61, 2, 1, 48, 33, 2,
      1, 1, 48, 12, 6, 7, 42, 134, 72, 206, 61, 1, 1, 2, 1, 127, 48, 6, 4,
      1, 3, 4, 1, 4, 4, 3, 4, 1, 2, 2, 1, 7, 4, 8, 48, 6, 2, 1, 1, 4, 1, 9] \<and>
   reencode (privateKeyOf [1] [0x7F] [3] [4] [1] [2, 3] [7] [9])
     \<noteq> encodeKeyUsingPKCS8Format (privateKeyOf [1] [0x7F] [3] [4] [1] [2, 3] [7] [9])"
proof -
  let ?k = "privateKeyOf [1] [0x7F] [3] [4] [1] [2, 3] [7] [9]"
  note h = holds_privateKeyOf [of "[1]" "[0x7F]" "[3]" "[4]" "[1]" "[2, 3]" "[7]" "[9]",
      simplified]
  have s: "signPadded [0x7F] = [0x7F]" "signPadded [7] = [7]"
    by (simp_all add: signPadded_def)
  have e: "encodeKeyUsingPKCS8Format ?k
      = Inr (getBytes (PrivateKeyInfo [1] [0x7F] [3] [4] [4, 1, 2, 3] [7] [9]))"
    using encodeKey_holds [OF privateKeyOf_type h] by (simp add: s)
  have r: "reencode ?k = Inr (getBytes (PrivateKeyInfo [1] [0x7F] [3] [4] [4, 1, 2] [7] [9]))"
    using reencode_general [OF privateKeyOf_type h]
    by (simp add: s decodeUncompressedECPoint_3 thenE_Inr)
  show ?thesis
    unfolding e r getBytes_odd getBytes_odd' by simp
qed

section \<open>Failures\<close>

lemma thenE_Inl_iff: "thenE m f = Inl e \<longleftrightarrow> m = Inl e \<or> (\<exists>x. m = Inr x \<and> f x = Inl e)"
  by (cases m) (simp_all add: thenE_def)

lemma thenE_Inr_iff: "thenE m f = Inr y \<longleftrightarrow> (\<exists>x. m = Inr x \<and> f x = Inr y)"
  by (cases m) (simp_all add: thenE_def)

lemma getComponent_error: "getComponent k c = Inl e \<Longrightarrow> e = UNDEFINED_COMPONENT"
  by (simp add: getComponent_def split: option.splits)

lemma byteAt_error: "byteAt v i = Inl e \<Longrightarrow> e = INVALID_INDEX"
  by (simp add: byteAt_def split: if_splits)

lemma encode_not_assertion:
  assumes "getType k = Some PRIVATE"
  shows "encodeKeyUsingPKCS8Format k \<noteq> Inl AssertionFailed"
proof
  assume "encodeKeyUsingPKCS8Format k = Inl AssertionFailed"
  then show False
    using assms
    by (auto simp: encodeKeyUsingPKCS8Format_def thenE_Inl_iff Let_def stripLeadingZeros_eq
        encodeUncompressedECPoint_eq ByteString_HEX_00 ByteString_HEX_01
        dest!: getComponent_error byteAt_error split: if_splits
        simp del: ByteString_HEX.simps ByteString_OID.simps getBytes.simps)
qed

text \<open>
  C9, as the code has it. encodeKeyUsingPKCS8Format fails its assertion exactly for the keys
  whose type is not PRIVATE: every such key makes it fail, and no private key does. A
  private key whose eight components are set, with P and N not empty, is encoded: the
  result is the DER encoding of the tree of section 4.2.
\<close>

theorem encode_precondition:
  "(encodeKeyUsingPKCS8Format k = Inl AssertionFailed \<longleftrightarrow> getType k \<noteq> Some PRIVATE) \<and>
   (getType k = Some PRIVATE \<and>
    components k ECC_H = Some h \<and> components k ECC_P = Some p \<and>
    components k ECC_A = Some a \<and> components k ECC_B = Some b \<and>
    components k ECC_GX = Some gx \<and> components k ECC_GY = Some gy \<and>
    components k ECC_N = Some n \<and> components k ECC_D = Some d \<and> p \<noteq> [] \<and> n \<noteq> [] \<longrightarrow>
    encodeKeyUsingPKCS8Format k =
      Inr (getBytes (PrivateKeyInfo (dropWhile (\<lambda>b. b = 0) h)
             (if 0x80 \<le> unat (hd p) then 0x00 # p else p) a b ([0x04] @ gx @ gy)
             (if 0x80 \<le> unat (hd n) then 0x00 # n else n) d)))"
proof (intro conjI impI)
  show "encodeKeyUsingPKCS8Format k = Inl AssertionFailed \<longleftrightarrow> getType k \<noteq> Some PRIVATE"
    using encode_not_assertion [of k] by (auto simp: encodeKeyUsingPKCS8Format_def)
next
  assume "getType k = Some PRIVATE \<and>
    components k ECC_H = Some h \<and> components k ECC_P = Some p \<and>
    components k ECC_A = Some a \<and> components k ECC_B = Some b \<and>
    components k ECC_GX = Some gx \<and> components k ECC_GY = Some gy \<and>
    components k ECC_N = Some n \<and> components k ECC_D = Some d \<and> p \<noteq> [] \<and> n \<noteq> []"
  then show "encodeKeyUsingPKCS8Format k =
      Inr (getBytes (PrivateKeyInfo (dropWhile (\<lambda>b. b = 0) h)
             (if 0x80 \<le> unat (hd p) then 0x00 # p else p) a b ([0x04] @ gx @ gy)
             (if 0x80 \<le> unat (hd n) then 0x00 # n else n) d))"
    using encodeKey_eq [of k h p a b gx gy n d] by (simp add: signPadded_def)
qed

lemma getBytes_example:
  "getBytes (PrivateKeyInfo [1] [0x7F] [3] [4] [4, 5, 6] [7] [9]) =
     [0x30, 0x3B, 0x02, 0x01, 0x00,
      0x30, 0x2C, 0x06, 0x07, 0x2A, 0x86, 0x48, 0xCE, 0x3D, 0x02, 0x01,
      0x30, 0x21, 0x02, 0x01, 0x01,
      0x30, 0x0C, 0x06, 0x07, 0x2A, 0x86, 0x48, 0xCE, 0x3D, 0x01, 0x01, 0x02, 0x01, 0x7F,
      0x30, 0x06, 0x04, 0x01, 0x03, 0x04, 0x01, 0x04,
      0x04, 0x03, 0x04, 0x05, 0x06,
      0x02, 0x01, 0x07,
      0x04, 0x08, 0x30, 0x06, 0x02, 0x01, 0x01, 0x04, 0x01, 0x09]"
  by (simp add: PrivateKeyInfo_def tlv_def encodeLength_def tag_values)

theorem encode_precondition_witness:
  "encodeKeyUsingPKCS8Format (setType (privateKeyOf [1] [0x7F] [3] [4] [5] [6] [7] [9]) PUBLIC)
     = Inl AssertionFailed \<and>
   getType (privateKeyOf [1] [0x7F] [3] [4] [5] [6] [7] [9]) = Some PRIVATE \<and>
   encodeKeyUsingPKCS8Format (privateKeyOf [1] [0x7F] [3] [4] [5] [6] [7] [9]) =
     Inr [0x30, 0x3B, 0x02, 0x01, 0x00,
      0x30, 0x2C, 0x06, 0x07, 0x2A, 0x86, 0x48, 0xCE, 0x3D, 0x02, 0x01,
      0x30, 0x21, 0x02, 0x01, 0x01,
      0x30, 0x0C, 0x06, 0x07, 0x2A, 0x86, 0x48, 0xCE, 0x3D, 0x01, 0x01, 0x02, 0x01, 0x7F,
      0x30, 0x06, 0x04, 0x01, 0x03, 0x04, 0x01, 0x04,
      0x04, 0x03, 0x04, 0x05, 0x06,
      0x02, 0x01, 0x07,
      0x04, 0x08, 0x30, 0x06, 0x02, 0x01, 0x01, 0x04, 0x01, 0x09]"
proof -
  let ?k = "privateKeyOf [1] [0x7F] [3] [4] [5] [6] [7] [9]"
  have pub: "getType (setType ?k PUBLIC) \<noteq> Some PRIVATE"
    by (simp add: getType_def setType_def)
  have t: "getType ?k = Some PRIVATE"
    by (rule privateKeyOf_type)
  have 1: "encodeKeyUsingPKCS8Format (setType ?k PUBLIC) = Inl AssertionFailed"
    using encode_precondition [of "setType ?k PUBLIC"] pub by blast
  have "encodeKeyUsingPKCS8Format ?k
      = Inr (getBytes (PrivateKeyInfo [1] [0x7F] [3] [4] [4, 5, 6] [7] [9]))"
    using encode_precondition [of ?k "[1]" "[0x7F]" "[3]" "[4]" "[5]" "[6]" "[7]" "[9]"] t
    by (simp add: privateKeyOf_components)
  then show ?thesis
    using 1 t unfolding getBytes_example by simp
qed

text \<open>
  The claim C9 as it is written fails: a private key is not always encoded. The encoder
  fails on a private key without components, and on one whose P or N is empty.
\<close>

theorem encode_private_key_fails:
  "getType (setType new_Key PRIVATE) = Some PRIVATE \<and>
   encodeKeyUsingPKCS8Format (setType new_Key PRIVATE) = Inl UNDEFINED_COMPONENT \<and>
   getType (privateKeyOf [1] [] [3] [4] [5] [6] [7] [9]) = Some PRIVATE \<and>
   encodeKeyUsingPKCS8Format (privateKeyOf [1] [] [3] [4] [5] [6] [7] [9]) = Inl INVALID_INDEX \<and>
   getType (privateKeyOf [1] [0x7F] [3] [4] [5] [6] [] [9]) = Some PRIVATE \<and>
   encodeKeyUsingPKCS8Format (privateKeyOf [1] [0x7F] [3] [4] [5] [6] [] [9]) = Inl INVALID_INDEX"
proof -
  have 1: "getType (setType new_Key PRIVATE) = Some PRIVATE"
    by (simp add: getType_def setType_def)
  have 2: "encodeKeyUsingPKCS8Format (setType new_Key PRIVATE) = Inl UNDEFINED_COMPONENT"
    unfolding encodeKeyUsingPKCS8Format_def
    by (simp add: ByteString_HEX_00 thenE_Inr thenE_Inl Let_def getComponent_def getType_def
        setType_def new_Key_def del: ByteString_HEX.simps ByteString_OID.simps)
  have 3: "encodeKeyUsingPKCS8Format (privateKeyOf [1] [] [3] [4] [5] [6] [7] [9]) = Inl INVALID_INDEX"
    unfolding encodeKeyUsingPKCS8Format_def
    by (simp add: privateKeyOf_type privateKeyOf_components ByteString_HEX_00 thenE_Inr thenE_Inl
        Let_def getComponent_def stripLeadingZeros_eq byteAt_def
        del: ByteString_HEX.simps ByteString_OID.simps)
  have 4: "encodeKeyUsingPKCS8Format (privateKeyOf [1] [0x7F] [3] [4] [5] [6] [] [9]) = Inl INVALID_INDEX"
    unfolding encodeKeyUsingPKCS8Format_def
    by (simp add: privateKeyOf_type privateKeyOf_components ByteString_HEX_00 thenE_Inr thenE_Inl
        Let_def getComponent_def stripLeadingZeros_eq encodeUncompressedECPoint_eq byteAt_def
        del: ByteString_HEX.simps ByteString_OID.simps)
  show ?thesis
    using 1 2 3 4 by (simp add: privateKeyOf_type)
qed

lemma new_ASN1_error: "new_ASN1 bs = Inl e \<Longrightarrow> e = INVALID_DATA"
  by (simp add: new_ASN1_def split: option.splits list.splits)

lemma get_error: "get node i = Inl e \<Longrightarrow> e = INVALID_INDEX"
  by (cases node) (simp_all split: if_splits)

lemma bytes_error: "bytes bs off cnt = Inl e \<Longrightarrow> e = INVALID_INDEX"
  by (simp add: bytes_def Let_def split: if_splits)

lemma decodeUncompressedECPoint_error: "decodeUncompressedECPoint p = Inl e \<Longrightarrow> e = INVALID_INDEX"
  by (auto simp: decodeUncompressedECPoint_def Let_def thenE_Inl_iff dest: bytes_error)

lemma decodeKey_error:
  "decodeKeyFromPKCS8Format bs = Inl e \<Longrightarrow> e = INVALID_INDEX \<or> e = INVALID_DATA"
  by (auto simp: decodeKeyFromPKCS8Format_def Let_def thenE_Inl_iff
      dest: new_ASN1_error get_error decodeUncompressedECPoint_error)

lemma isl_thenE: "isl (thenE m f) \<longleftrightarrow> isl m \<or> (\<exists>x. m = Inr x \<and> isl (f x))"
  by (cases m) (simp_all add: thenE_def)

lemma not_isl_iff: "\<not> isl m \<longleftrightarrow> (\<exists>x. m = Inr x)"
  by (cases m) simp_all

lemma decodeUncompressedECPoint_fails: "isl (decodeUncompressedECPoint p) \<longleftrightarrow> p = []"
proof (cases "p = []")
  case True
  have "\<lceil>- (1 / 2) :: rat\<rceil> = 0"
    by (rule ceiling_unique) simp_all
  then have "toInteger (- (1 / 2)) = 0"
    by (simp add: toInteger_def)
  then show ?thesis
    using True
    by (simp add: decodeUncompressedECPoint_def bytes_def Let_def thenE_Inl toInteger_def [of 1])
next
  case False
  then show ?thesis
    by (simp add: decodeUncompressedECPoint_nonempty)
qed

lemma decodeKey_readable:
  assumes "decodeKeyFromPKCS8Format bs = Inr k"
  shows "\<not> unreadable bs"
  using assms
  by (auto simp: decodeKeyFromPKCS8Format_def unreadable_def Let_def thenE_Inr_iff thenE_Inr
      navigatedPaths_def)

lemma readable_decodeKey:
  assumes "\<not> unreadable bs"
  shows "\<exists>k. decodeKeyFromPKCS8Format bs = Inr k"
proof -
  obtain tree where tree: "new_ASN1 bs = Inr tree"
    using assms by (cases "new_ASN1 bs") (simp_all add: unreadable_def)
  have paths: "\<not> list_ex (\<lambda>path. isl (nodeAt tree path)) navigatedPaths"
    and block: "\<not> isl (thenE (nodeAt tree [2]) (\<lambda>block.
               thenE (new_ASN1 (value block)) (\<lambda>inner. nodeAt inner [1])))"
    and point: "\<not> isl (thenE (nodeAt tree [1, 1, 3]) (\<lambda>point.
               decodeUncompressedECPoint (value point)))"
    using assms by (simp_all add: unreadable_def tree)
  obtain blk inner d where b: "get tree 2 = Inr blk" "new_ASN1 (value blk) = Inr inner"
      "get inner 1 = Inr d"
    using block by (auto simp: isl_thenE not_isl_iff thenE_Inr)
  obtain alg dp g xy where p: "get tree 1 = Inr alg" "get alg 1 = Inr dp" "get dp 3 = Inr g"
      "decodeUncompressedECPoint (value g) = Inr xy"
    using point by (auto simp: isl_thenE not_isl_iff thenE_Inr)
  obtain h fld pr co a b' n where r: "get dp 0 = Inr h" "get dp 1 = Inr fld" "get fld 1 = Inr pr"
      "get dp 2 = Inr co" "get co 0 = Inr a" "get co 1 = Inr b'" "get dp 4 = Inr n"
    using paths p(1,2) by (auto simp: navigatedPaths_def isl_thenE not_isl_iff thenE_Inr)
  show ?thesis
    using tree b p r by (simp add: decodeKeyFromPKCS8Format_def thenE_Inr Let_def)
qed

text \<open>
  C10, as the code has it. decodeKeyFromPKCS8Format fails, with the index error or the data
  error of the host, exactly on the inputs that offer it less than it reads: an input
  that is not one ASN.1 object, a tree without one of the child positions it reads, a
  private-key block that is not one ASN.1 object with a second child, a base point value
  the point decoder fails on (the empty value). On every other input it returns a key,
  whatever the tags are and however many children there are besides.
\<close>

theorem decode_fails_iff_unreadable:
  "(unreadable bs \<longleftrightarrow>
      decodeKeyFromPKCS8Format bs = Inl INVALID_INDEX \<or>
      decodeKeyFromPKCS8Format bs = Inl INVALID_DATA) \<and>
   (\<not> unreadable bs \<longleftrightarrow> (\<exists>k. decodeKeyFromPKCS8Format bs = Inr k))"
proof -
  have 1: "\<not> unreadable bs \<longleftrightarrow> (\<exists>k. decodeKeyFromPKCS8Format bs = Inr k)"
    using decodeKey_readable [of bs] readable_decodeKey [of bs] by blast
  have 2: "unreadable bs \<longleftrightarrow>
      decodeKeyFromPKCS8Format bs = Inl INVALID_INDEX \<or>
      decodeKeyFromPKCS8Format bs = Inl INVALID_DATA"
  proof (cases "decodeKeyFromPKCS8Format bs")
    case (Inl e)
    then show ?thesis
      using 1 decodeKey_error [of bs e] by auto
  next
    case (Inr k)
    then show ?thesis
      using 1 by auto
  qed
  show ?thesis
    using 1 2 by blast
qed

lemma decodeUncompressedECPoint_456: "decodeUncompressedECPoint [4, 5, 6] = Inr ([5], [6])"
  using decodeUncompressedECPoint_marked [of "[5]" "[6]" 4] by simp

lemma decode_without_D:
  "decodeKeyFromPKCS8Format
     [0x30, 0x38, 0x02, 0x01, 0x00,
      0x30, 0x2C, 0x06, 0x07, 0x2A, 0x86, 0x48, 0xCE, 0x3D, 0x02, 0x01,
      0x30, 0x21, 0x02, 0x01, 0x01,
      0x30, 0x0C, 0x06, 0x07, 0x2A, 0x86, 0x48, 0xCE, 0x3D, 0x01, 0x01, 0x02, 0x01, 0x7F,
      0x30, 0x06, 0x04, 0x01, 0x03, 0x04, 0x01, 0x04,
      0x04, 0x03, 0x04, 0x05, 0x06,
      0x02, 0x01, 0x07,
      0x04, 0x05, 0x30, 0x03, 0x02, 0x01, 0x01] = Inl INVALID_INDEX"
proof -
  let ?inner = "Constructed SEQUENCE [Primitive INTEGER [0x01]]"
  let ?tree = "Constructed SEQUENCE
       [Primitive INTEGER [0x00],
        Constructed SEQUENCE
          [Primitive OBJECT_IDENTIFIER [0x2A, 0x86, 0x48, 0xCE, 0x3D, 0x02, 0x01],
           Constructed SEQUENCE
             [Primitive INTEGER [0x01],
              Constructed SEQUENCE
                [Primitive OBJECT_IDENTIFIER [0x2A, 0x86, 0x48, 0xCE, 0x3D, 0x01, 0x01],
                 Primitive INTEGER [0x7F]],
              Constructed SEQUENCE [Primitive OCTET_STRING [0x03], Primitive OCTET_STRING [0x04]],
              Primitive OCTET_STRING [0x04, 0x05, 0x06],
              Primitive INTEGER [0x07]]],
        Constructed OCTET_STRING [?inner]]"
  have p8: "new_ASN1 (getBytes ?tree) = Inr (parsedForm ?tree)"
    by (rule new_ASN1_getBytes) (simp_all add: tags)
  have inner: "new_ASN1 (getBytes ?inner) = Inr (parsedForm ?inner)"
    by (rule new_ASN1_getBytes) (simp_all add: tags)
  have "decodeKeyFromPKCS8Format (getBytes ?tree) = Inl INVALID_INDEX"
    unfolding decodeKeyFromPKCS8Format_def p8
    using inner
    by (simp add: thenE_Inr thenE_Inl Let_def tags del: getBytes.simps)
  then show ?thesis
    by (simp add: tlv_def encodeLength_def tag_values)
qed

lemma decode_example:
  "decodeKeyFromPKCS8Format
     [0x30, 0x3B, 0x02, 0x01, 0x00,
      0x30, 0x2C, 0x06, 0x07, 0x2A, 0x86, 0x48, 0xCE, 0x3D, 0x02, 0x01,
      0x30, 0x21, 0x02, 0x01, 0x01,
      0x30, 0x0C, 0x06, 0x07, 0x2A, 0x86, 0x48, 0xCE, 0x3D, 0x01, 0x01, 0x02, 0x01, 0x7F,
      0x30, 0x06, 0x04, 0x01, 0x03, 0x04, 0x01, 0x04,
      0x04, 0x03, 0x04, 0x05, 0x06,
      0x02, 0x01, 0x07,
      0x04, 0x08, 0x30, 0x06, 0x02, 0x01, 0x01, 0x04, 0x01, 0x09]
     = Inr (decodedKey [0x01] [0x7F] [0x03] [0x04] [0x05] [0x06] [0x07] [0x09])"
  using decodeKey_PrivateKeyInfo [of "[1]" "[0x7F]" "[3]" "[4]" "[4, 5, 6]" "[7]" "[9]"]
  unfolding getBytes_example
  by (simp add: decodeUncompressedECPoint_456 thenE_Inr)

theorem decode_fails_iff_unreadable_witness:
  "unreadable
     [0x30, 0x38, 0x02, 0x01, 0x00,
      0x30, 0x2C, 0x06, 0x07, 0x2A, 0x86, 0x48, 0xCE, 0x3D, 0x02, 0x01,
      0x30, 0x21, 0x02, 0x01, 0x01,
      0x30, 0x0C, 0x06, 0x07, 0x2A, 0x86, 0x48, 0xCE, 0x3D, 0x01, 0x01, 0x02, 0x01, 0x7F,
      0x30, 0x06, 0x04, 0x01, 0x03, 0x04, 0x01, 0x04,
      0x04, 0x03, 0x04, 0x05, 0x06,
      0x02, 0x01, 0x07,
      0x04, 0x05, 0x30, 0x03, 0x02, 0x01, 0x01] \<and>
   decodeKeyFromPKCS8Format
     [0x30, 0x38, 0x02, 0x01, 0x00,
      0x30, 0x2C, 0x06, 0x07, 0x2A, 0x86, 0x48, 0xCE, 0x3D, 0x02, 0x01,
      0x30, 0x21, 0x02, 0x01, 0x01,
      0x30, 0x0C, 0x06, 0x07, 0x2A, 0x86, 0x48, 0xCE, 0x3D, 0x01, 0x01, 0x02, 0x01, 0x7F,
      0x30, 0x06, 0x04, 0x01, 0x03, 0x04, 0x01, 0x04,
      0x04, 0x03, 0x04, 0x05, 0x06,
      0x02, 0x01, 0x07,
      0x04, 0x05, 0x30, 0x03, 0x02, 0x01, 0x01] = Inl INVALID_INDEX \<and>
   \<not> unreadable
     [0x30, 0x3B, 0x02, 0x01, 0x00,
      0x30, 0x2C, 0x06, 0x07, 0x2A, 0x86, 0x48, 0xCE, 0x3D, 0x02, 0x01,
      0x30, 0x21, 0x02, 0x01, 0x01,
      0x30, 0x0C, 0x06, 0x07, 0x2A, 0x86, 0x48, 0xCE, 0x3D, 0x01, 0x01, 0x02, 0x01, 0x7F,
      0x30, 0x06, 0x04, 0x01, 0x03, 0x04, 0x01, 0x04,
      0x04, 0x03, 0x04, 0x05, 0x06,
      0x02, 0x01, 0x07,
      0x04, 0x08, 0x30, 0x06, 0x02, 0x01, 0x01, 0x04, 0x01, 0x09] \<and>
   decodeKeyFromPKCS8Format
     [0x30, 0x3B, 0x02, 0x01, 0x00,
      0x30, 0x2C, 0x06, 0x07, 0x2A, 0x86, 0x48, 0xCE, 0x3D, 0x02, 0x01,
      0x30, 0x21, 0x02, 0x01, 0x01,
      0x30, 0x0C, 0x06, 0x07, 0x2A, 0x86, 0x48, 0xCE, 0x3D, 0x01, 0x01, 0x02, 0x01, 0x7F,
      0x30, 0x06, 0x04, 0x01, 0x03, 0x04, 0x01, 0x04,
      0x04, 0x03, 0x04, 0x05, 0x06,
      0x02, 0x01, 0x07,
      0x04, 0x08, 0x30, 0x06, 0x02, 0x01, 0x01, 0x04, 0x01, 0x09]
     = Inr (decodedKey [0x01] [0x7F] [0x03] [0x04] [0x05] [0x06] [0x07] [0x09])"
  using decode_without_D decode_example
    decode_fails_iff_unreadable [of "[0x30, 0x38, 0x02, 0x01, 0x00,
      0x30, 0x2C, 0x06, 0x07, 0x2A, 0x86, 0x48, 0xCE, 0x3D, 0x02, 0x01,
      0x30, 0x21, 0x02, 0x01, 0x01,
      0x30, 0x0C, 0x06, 0x07, 0x2A, 0x86, 0x48, 0xCE, 0x3D, 0x01, 0x01, 0x02, 0x01, 0x7F,
      0x30, 0x06, 0x04, 0x01, 0x03, 0x04, 0x01, 0x04,
      0x04, 0x03, 0x04, 0x05, 0x06,
      0x02, 0x01, 0x07,
      0x04, 0x05, 0x30, 0x03, 0x02, 0x01, 0x01]"]
    decode_fails_iff_unreadable [of "[0x30, 0x3B, 0x02, 0x01, 0x00,
      0x30, 0x2C, 0x06, 0x07, 0x2A, 0x86, 0x48, 0xCE, 0x3D, 0x02, 0x01,
      0x30, 0x21, 0x02, 0x01, 0x01,
      0x30, 0x0C, 0x06, 0x07, 0x2A, 0x86, 0x48, 0xCE, 0x3D, 0x01, 0x01, 0x02, 0x01, 0x7F,
      0x30, 0x06, 0x04, 0x01, 0x03, 0x04, 0x01, 0x04,
      0x04, 0x03, 0x04, 0x05, 0x06,
      0x02, 0x01, 0x07,
      0x04, 0x08, 0x30, 0x06, 0x02, 0x01, 0x01, 0x04, 0x01, 0x09]"]
  by simp

lemma tags_numeral:
  "shortTag 0x31" "shortTag 0x02" "shortTag 0x04" "isConstructed 0x31" "\<not> isConstructed 0x02"
  "\<not> isConstructed 0x04"
  by (simp_all add: shortTag_def isConstructed_def)

lemma getBytes_mistagged:
  "getBytes mistagged =
     [0x31, 0x33, 0x04, 0x01, 0x00,
      0x31, 0x21, 0x04, 0x03, 0x01, 0x02, 0x03,
      0x31, 0x1A, 0x04, 0x01, 0x01,
      0x31, 0x05, 0x04, 0x00, 0x04, 0x01, 0x7F,
      0x31, 0x06, 0x02, 0x01, 0x03, 0x02, 0x01, 0x04,
      0x02, 0x03, 0x04, 0x05, 0x06,
      0x04, 0x01, 0x07,
      0x02, 0x08, 0x31, 0x06, 0x04, 0x01, 0x01, 0x02, 0x01, 0x09,
      0x04, 0x01, 0x0B]"
  by (simp add: mistagged_def tlv_def encodeLength_def)

text \<open>
  The claim C10 as it is written fails: the decoder checks neither tags nor the number of
  children, and reads a key out of a tree in which every tag is wrong.
\<close>

theorem decode_accepts_mistagged:
  "new_ASN1
     [0x31, 0x33, 0x04, 0x01, 0x00,
      0x31, 0x21, 0x04, 0x03, 0x01, 0x02, 0x03,
      0x31, 0x1A, 0x04, 0x01, 0x01,
      0x31, 0x05, 0x04, 0x00, 0x04, 0x01, 0x7F,
      0x31, 0x06, 0x02, 0x01, 0x03, 0x02, 0x01, 0x04,
      0x02, 0x03, 0x04, 0x05, 0x06,
      0x04, 0x01, 0x07,
      0x02, 0x08, 0x31, 0x06, 0x04, 0x01, 0x01, 0x02, 0x01, 0x09,
      0x04, 0x01, 0x0B] = Inr mistagged \<and>
   decodeKeyFromPKCS8Format
     [0x31, 0x33, 0x04, 0x01, 0x00,
      0x31, 0x21, 0x04, 0x03, 0x01, 0x02, 0x03,
      0x31, 0x1A, 0x04, 0x01, 0x01,
      0x31, 0x05, 0x04, 0x00, 0x04, 0x01, 0x7F,
      0x31, 0x06, 0x02, 0x01, 0x03, 0x02, 0x01, 0x04,
      0x02, 0x03, 0x04, 0x05, 0x06,
      0x04, 0x01, 0x07,
      0x02, 0x08, 0x31, 0x06, 0x04, 0x01, 0x01, 0x02, 0x01, 0x09,
      0x04, 0x01, 0x0B]
     = Inr (decodedKey [0x01] [0x7F] [0x03] [0x04] [0x05] [0x06] [0x07] [0x09])"
proof -
  let ?inner = "Constructed 0x31 [Primitive 0x04 [0x01], Primitive 0x02 [0x09]]"
  have "new_ASN1 (getBytes mistagged) = Inr (parsedForm mistagged)"
    by (rule new_ASN1_getBytes) (simp_all add: mistagged_def tags_numeral)
  then have p8: "new_ASN1 (getBytes mistagged) = Inr mistagged"
    by (simp add: mistagged_def tags_numeral)
  have "new_ASN1 (getBytes ?inner) = Inr (parsedForm ?inner)"
    by (rule new_ASN1_getBytes) (simp_all add: tags_numeral)
  then have inner: "new_ASN1 [0x31, 0x06, 0x04, 0x01, 0x01, 0x02, 0x01, 0x09] = Inr ?inner"
    by (simp add: tags_numeral tlv_def encodeLength_def)
  have "decodeKeyFromPKCS8Format (getBytes mistagged)
      = Inr (decodedKey [0x01] [0x7F] [0x03] [0x04] [0x05] [0x06] [0x07] [0x09])"
    unfolding decodeKeyFromPKCS8Format_def p8
    unfolding mistagged_def
    by (simp add: inner thenE_Inr Let_def decodedKey_def decodeUncompressedECPoint_456)
  then show ?thesis
    using p8 unfolding getBytes_mistagged by simp
qed

end
